theory Spec2Isabelle
  imports Complex_Main "HOL-Library.Char_ord" "HOL-Library.List_Lexorder" "HOL-Library.Word"
begin

section \<open>Text\<close>

text \<open>
  A JavaScript string is a sequence of UTF-16 code units; \<open>length\<close>, \<open>split\<close> and
  \<open>trim\<close> count and inspect code units. Transcripts, summaries and URLs are modelled as
  lists of 16-bit words. File names, provider error codes and provider error messages are
  ASCII and are modelled as HOL strings; with the character order of \<open>Char_ord\<close> and the
  lexicographic order of \<open>List_Lexorder\<close>, \<open>sort\<close> on them is the default
  \<open>Array.prototype.sort()\<close> (comparison of code units, shorter prefix first).
\<close>

type_synonym code_unit = "16 word"
type_synonym jsstring = "code_unit list"

definition ascii :: "string \<Rightarrow> jsstring" where
  "ascii s = map (\<lambda>c. of_nat (of_char c)) s"

text \<open>\<open>s.startsWith(p)\<close> and \<open>s.includes(p)\<close>.\<close>

definition startsWith :: "'a list \<Rightarrow> 'a list \<Rightarrow> bool" where
  "startsWith s p = (take (length p) s = p)"

fun includesStr :: "'a list \<Rightarrow> 'a list \<Rightarrow> bool" where
  "includesStr [] p = (p = [])"
| "includesStr (x # xs) p = (startsWith (x # xs) p \<or> includesStr xs p)"

text \<open>
  \<open>String.prototype.trim\<close> removes leading and trailing WhiteSpace and LineTerminator
  code points (ECMAScript: TAB, VT, FF, SP, NBSP, ZWNBSP, the Unicode space separators,
  LF, CR, LS, PS).
\<close>

definition isWhiteSpace :: "code_unit \<Rightarrow> bool" where
  "isWhiteSpace c =
     (c = 0x0009 \<or> c = 0x000A \<or> c = 0x000B \<or> c = 0x000C \<or> c = 0x000D \<or> c = 0x0020
      \<or> c = 0x00A0 \<or> c = 0x1680 \<or> (0x2000 \<le> c \<and> c \<le> 0x200A) \<or> c = 0x2028
      \<or> c = 0x2029 \<or> c = 0x202F \<or> c = 0x205F \<or> c = 0x3000 \<or> c = 0xFEFF)"

definition trim :: "jsstring \<Rightarrow> jsstring" where
  "trim s = rev (dropWhile isWhiteSpace (rev (dropWhile isWhiteSpace s)))"

section \<open>Numbers\<close>

text \<open>
  A JavaScript number is an IEEE 754 double: every arithmetic operation returns the exact
  result rounded to the nearest double, ties to the even significand. A number is kept as
  the rational it denotes, and \<open>to_double\<close> rounds a rational to 53 significant bits.
  Overflow, subnormal numbers, NaN and the infinities are left out: the quotients,
  products and sums of the code stay far inside the normal range.
\<close>

definition pow2 :: "int \<Rightarrow> rat" where
  "pow2 e = (if 0 \<le> e then 2 ^ nat e else 1 / 2 ^ nat (- e))"

text \<open>\<open>ilog2 a\<close> is the position of the leading bit of a positive integer, and
  \<open>exponent x\<close> the \<open>e\<close> with \<open>2 ^ e \<le> x < 2 ^ (e + 1)\<close> for a positive rational.\<close>

function ilog2 :: "int \<Rightarrow> int" where
  "ilog2 a = (if a \<le> 1 then 0 else ilog2 (a div 2) + 1)"
  by pat_completeness auto
termination
  by (relation "measure nat") auto

declare ilog2.simps [simp del]

definition exponent :: "rat \<Rightarrow> int" where
  "exponent x =
     (case quotient_of x of
        (a, b) \<Rightarrow>
          let e = ilog2 a - ilog2 b
          in if pow2 e \<le> x then e else e - 1)"

definition round_half_even :: "rat \<Rightarrow> int" where
  "round_half_even q =
     (let n = \<lfloor>q\<rfloor>; f = q - of_int n
      in if f < 1 / 2 then n else if 1 / 2 < f then n + 1 else if even n then n else n + 1)"

definition to_double :: "rat \<Rightarrow> rat" where
  "to_double x =
     (if x = 0 then 0
      else of_int (round_half_even (x / pow2 (exponent \<bar>x\<bar> - 52)))
           * pow2 (exponent \<bar>x\<bar> - 52))"

text \<open>The operators \<open>+\<close>, \<open>*\<close> and \<open>/\<close> on numbers.\<close>

definition js_add :: "rat \<Rightarrow> rat \<Rightarrow> rat" where
  "js_add x y = to_double (x + y)"

definition js_mul :: "rat \<Rightarrow> rat \<Rightarrow> rat" where
  "js_mul x y = to_double (x * y)"

definition js_div :: "rat \<Rightarrow> rat \<Rightarrow> rat" where
  "js_div x y = to_double (x / y)"

section \<open>Errors\<close>

text \<open>
  An error object raised by the provider SDK, with the fields the code inspects:
  \<open>e.status\<close>, \<open>e.code\<close>, \<open>e.cause.code\<close> and \<open>e.message\<close>; each may be absent.
\<close>

record api_error =
  err_status :: "nat option"
  err_code :: "string option"
  err_cause_code :: "string option"
  err_message :: "string option"

text \<open>The rejection value of a file-system or media-tool call (ffprobe, ffmpeg, fs).\<close>

datatype io_error = IoError string

text \<open>
  Everything the pipeline throws. The \<open>Error\<close> objects the code creates carry fixed
  Chinese messages with at most one interpolated part; they are modelled as constructors
  holding that part: \<open>QuotaExhausted h\<close> is the message built in the rate-limit branch of
  \<open>summarizeTranscript\<close>'s handler, with \<open>h\<close> the retry-after text (\<open>None\<close>: the
  fixed placeholder); \<open>SummarizationFailed m\<close> is the message built in its other branch,
  with \<open>m\<close> the underlying \<open>e.message\<close> (\<open>None\<close>: the fixed placeholder).
\<close>

datatype thrown =
    ApiError api_error
  | IoFailure io_error
  | MaxRetriesReached
  | ParseTimeout
  | ParseFailed
  | DownloadTimeout
  | DownloadFailed
  | QuotaExhausted "string option"
  | SummarizationFailed "string option"

section \<open>transcribeSingleFile\<close>

definition isNetworkError :: "api_error \<Rightarrow> bool" where
  "isNetworkError e =
     (err_cause_code e = Some ''ECONNRESET'' \<or>
      err_cause_code e = Some ''ETIMEDOUT'' \<or>
      err_cause_code e = Some ''ENOTFOUND'' \<or>
      (case err_message e of None \<Rightarrow> False | Some m \<Rightarrow> includesStr m ''ECONNRESET'') \<or>
      (case err_message e of None \<Rightarrow> False | Some m \<Rightarrow> includesStr m ''fetch failed''))"

text \<open>
  What one call of \<open>transcribeSingleFile\<close> did: the value returned or thrown, the delays
  slept (milliseconds, in order) and the number of requests made.
\<close>

record transcribe_run =
  outcome :: "thrown + jsstring"
  delays :: "nat list"
  attempts :: nat

text \<open>
  The \<open>for (attempt = 1; attempt <= maxRetries; attempt++)\<close> loop. \<open>call k\<close> is the
  outcome of the \<open>k\<close>-th request for this file; \<open>slept\<close> accumulates the delays.
\<close>

function transcribe_loop ::
  "(nat \<Rightarrow> api_error + jsstring) \<Rightarrow> nat \<Rightarrow> nat \<Rightarrow> nat list \<Rightarrow> transcribe_run" where
  "transcribe_loop call maxRetries attempt slept =
     (if attempt \<le> maxRetries then
        (case call attempt of
           Inr transcription \<Rightarrow>
             \<lparr>outcome = Inr transcription, delays = slept, attempts = attempt\<rparr>
         | Inl error \<Rightarrow>
             if isNetworkError error \<and> attempt < maxRetries
             then transcribe_loop call maxRetries (attempt + 1)
                    (slept @ [2 ^ (attempt - 1) * 1000])
             else \<lparr>outcome = Inl (ApiError error), delays = slept, attempts = attempt\<rparr>)
      else \<lparr>outcome = Inl MaxRetriesReached, delays = slept, attempts = attempt - 1\<rparr>)"
  by pat_completeness auto
termination
  by (relation "measure (\<lambda>(call, maxRetries, attempt, slept). Suc maxRetries - attempt)") auto

definition transcribeSingleFile :: "(nat \<Rightarrow> api_error + jsstring) \<Rightarrow> nat \<Rightarrow> transcribe_run" where
  "transcribeSingleFile call maxRetries = transcribe_loop call maxRetries 1 []"

section \<open>transcribeLargeAudio\<close>

text \<open>
  The environment of \<open>transcribeLargeAudio\<close>:
  \<^item> the result of \<open>ffprobe\<close>: an error, or \<open>metadata.format.duration\<close>, which may be
    absent;
  \<^item> the result of the \<open>ffmpeg\<close> segment run: an error, or \<open>Inr k\<close> when the run ends
    having written \<open>k + 1\<close> files (a run that ends without error has written at least
    its first segment);
  \<^item> the names that are in \<open>tempDir\<close> besides the files of the segment run;
  \<^item> the result of \<open>readdir(tempDir)\<close> after the run: an error, or the names in the
    directory, in an order the file system chooses (\<open>readdir_order\<close> gives each name its
    rank);
  \<^item> the results of the speech-to-text requests, by file path and attempt number.
\<close>

record audio_env =
  probe_result :: "io_error + rat option"
  split_result :: "io_error + nat"
  other_files :: "string list"
  readdir_failure :: "io_error option"
  readdir_order :: "string \<Rightarrow> nat"
  stt :: "string \<Rightarrow> nat \<Rightarrow> api_error + jsstring"

definition CHUNK_SIZE :: rat where
  "CHUNK_SIZE = 180"

text \<open>
  The names the segment muxer writes for the output pattern \<open>chunk%03d<ext>\<close>: the
  segment number in decimal, padded with zeros to at least three digits.
\<close>

definition digit_char :: "nat \<Rightarrow> char" where
  "digit_char d = char_of (48 + d)"

fun decimal :: "nat \<Rightarrow> string" where
  "decimal n = (if n < 10 then [digit_char n] else decimal (n div 10) @ [digit_char (n mod 10)])"

declare decimal.simps [simp del]

definition pad3 :: "nat \<Rightarrow> string" where
  "pad3 n = replicate (3 - length (decimal n)) CHR ''0'' @ decimal n"

definition chunk_name :: "string \<Rightarrow> nat \<Rightarrow> string" where
  "chunk_name ext i = ''chunk'' @ pad3 i @ ext"

text \<open>\<open>path.join(dir, f)\<close> for a directory path and a plain file name.\<close>

definition path_join :: "string \<Rightarrow> string \<Rightarrow> string" where
  "path_join dir f = dir @ ''/'' @ f"

text \<open>What \<open>readdir(tempDir)\<close> lists after a segment run that wrote \<open>k + 1\<close> files.\<close>

definition listing :: "audio_env \<Rightarrow> string \<Rightarrow> nat \<Rightarrow> string list" where
  "listing env originalExt k =
     sort_key (readdir_order env) (other_files env @ map (chunk_name originalExt) [0..<Suc k])"

text \<open>Step 1 of \<open>transcribeLargeAudio\<close>: the list \<open>chunks\<close> (or what is thrown).\<close>

definition segment_paths ::
  "audio_env \<Rightarrow> string \<Rightarrow> string \<Rightarrow> string \<Rightarrow> thrown + string list" where
  "segment_paths env inputPath originalExt tempDir =
     (case probe_result env of
        Inl err \<Rightarrow> Inl (IoFailure err)
      | Inr d \<Rightarrow>
          let duration = (case d of None \<Rightarrow> 0 | Some x \<Rightarrow> x) in
          if duration \<le> CHUNK_SIZE then Inr [inputPath]
          else
            (case split_result env of
               Inl err \<Rightarrow> Inl (IoFailure err)
             | Inr k \<Rightarrow>
                 (case readdir_failure env of
                    Some err \<Rightarrow> Inl (IoFailure err)
                  | None \<Rightarrow>
                      Inr (map (path_join tempDir)
                             (sort (filter (\<lambda>f. startsWith f ''chunk'')
                                      (listing env originalExt k)))))))"

text \<open>
  Step 2: the sequential loop over \<open>chunks\<close>. \<open>reported\<close> collects the arguments of
  \<open>onProgress\<close> in call order.
\<close>

text \<open>
  \<open>Math.floor(30 + (i * (range / totalChunks)))\<close> with \<open>range = 55\<close>, and
  \<open>30 + Math.floor(((i + 1) / totalChunks) * 50)\<close>.
\<close>

definition startP :: "nat \<Rightarrow> nat \<Rightarrow> int" where
  "startP totalChunks i = \<lfloor>js_add 30 (js_mul (of_nat i) (js_div 55 (of_nat totalChunks)))\<rfloor>"

definition endP :: "nat \<Rightarrow> nat \<Rightarrow> int" where
  "endP totalChunks i = 30 + \<lfloor>js_mul (js_div (of_nat (i + 1)) (of_nat totalChunks)) 50\<rfloor>"

fun process_chunks ::
  "(string \<Rightarrow> nat \<Rightarrow> api_error + jsstring) \<Rightarrow> nat \<Rightarrow> nat \<Rightarrow> string list \<Rightarrow> jsstring \<Rightarrow> int list
     \<Rightarrow> (thrown + jsstring) \<times> int list" where
  "process_chunks transcribe totalChunks i [] fullTranscript reported = (Inr fullTranscript, reported)"
| "process_chunks transcribe totalChunks i (chunkPath # rest) fullTranscript reported =
     (case outcome (transcribeSingleFile (transcribe chunkPath) 3) of
        Inl e \<Rightarrow> (Inl e, reported @ [startP totalChunks i])
      | Inr text \<Rightarrow>
          process_chunks transcribe totalChunks (i + 1) rest (fullTranscript @ text @ [0x000A])
            (reported @ [startP totalChunks i, endP totalChunks i]))"

definition transcribeLargeAudio ::
  "audio_env \<Rightarrow> string \<Rightarrow> string \<Rightarrow> string \<Rightarrow> (thrown + jsstring) \<times> int list" where
  "transcribeLargeAudio env inputPath originalExt tempDir =
     (case segment_paths env inputPath originalExt tempDir of
        Inl e \<Rightarrow> (Inl e, [])
      | Inr chunks \<Rightarrow> process_chunks (stt env) (length chunks) 0 chunks [] [])"

section \<open>splitTranscriptIntoChunks\<close>

text \<open>
  \<open>transcript.split(/([...]+)/)\<close>, where the character class holds the ideographic
  full stop (U+3002), the fullwidth exclamation mark (U+FF01), the fullwidth question mark
  (U+FF1F) and the line feed: the separator is a maximal run of these. With the capture group the result alternates text and separator
  runs, starting and ending with a (possibly empty) text.
\<close>

definition isDelimiter :: "code_unit \<Rightarrow> bool" where
  "isDelimiter c = (c = 0x3002 \<or> c = 0xFF01 \<or> c = 0xFF1F \<or> c = 0x000A)"

function split_sentences :: "jsstring \<Rightarrow> jsstring list" where
  "split_sentences s =
     (if dropWhile (\<lambda>c. \<not> isDelimiter c) s = [] then [takeWhile (\<lambda>c. \<not> isDelimiter c) s]
      else takeWhile (\<lambda>c. \<not> isDelimiter c) s
           # takeWhile isDelimiter (dropWhile (\<lambda>c. \<not> isDelimiter c) s)
           # split_sentences (dropWhile isDelimiter (dropWhile (\<lambda>c. \<not> isDelimiter c) s)))"
  by pat_completeness auto
termination
proof (relation "measure length")
  show "wf (measure length)" by simp
next
  fix s :: jsstring
  assume ne: "dropWhile (\<lambda>c. \<not> isDelimiter c) s \<noteq> []"
  then obtain x xs where r: "dropWhile (\<lambda>c. \<not> isDelimiter c) s = x # xs"
    by (cases "dropWhile (\<lambda>c. \<not> isDelimiter c) s") auto
  from hd_dropWhile [OF ne] r have "isDelimiter x" by simp
  then have "length (dropWhile isDelimiter (x # xs)) \<le> length xs"
    by (simp add: length_dropWhile_le)
  moreover have "length (x # xs) \<le> length s"
    using length_dropWhile_le [of "\<lambda>c. \<not> isDelimiter c" s] r by simp
  ultimately show
    "(dropWhile isDelimiter (dropWhile (\<lambda>c. \<not> isDelimiter c) s), s) \<in> measure length"
    using r by simp
qed

declare split_sentences.simps [simp del]

text \<open>
  The loop over \<open>sentences\<close>, with the array \<open>chunks\<close> and the string \<open>currentChunk\<close>
  as accumulators.
\<close>

fun chunk_loop ::
  "nat \<Rightarrow> jsstring list \<Rightarrow> jsstring list \<Rightarrow> jsstring \<Rightarrow> jsstring list \<times> jsstring" where
  "chunk_loop maxCharsPerChunk [] chunks currentChunk = (chunks, currentChunk)"
| "chunk_loop maxCharsPerChunk (sentence # rest) chunks currentChunk =
     (if length currentChunk + length sentence > maxCharsPerChunk \<and> length currentChunk > 0
      then chunk_loop maxCharsPerChunk rest (chunks @ [trim currentChunk]) sentence
      else chunk_loop maxCharsPerChunk rest chunks (currentChunk @ sentence))"

definition splitTranscriptIntoChunks :: "jsstring \<Rightarrow> nat \<Rightarrow> jsstring list" where
  "splitTranscriptIntoChunks transcript maxCharsPerChunk =
     (if length transcript \<le> maxCharsPerChunk then [transcript]
      else
        (case chunk_loop maxCharsPerChunk (split_sentences transcript) [] [] of
           (chunks, currentChunk) \<Rightarrow>
             if trim currentChunk \<noteq> [] then chunks @ [trim currentChunk] else chunks))"

text \<open>
  The bound kept by the loop: a finished chunk is at most \<open>C\<close> long or is the trimmed
  form of one piece longer than \<open>C\<close>; the chunk under construction is at most \<open>C\<close> long or
  is one such piece.
\<close>

definition chunk_ok :: "nat \<Rightarrow> jsstring set \<Rightarrow> jsstring \<Rightarrow> bool" where
  "chunk_ok C S c = (length c \<le> C \<or> (\<exists>p \<in> S. C < length p \<and> c = trim p))"

definition current_ok :: "nat \<Rightarrow> jsstring set \<Rightarrow> jsstring \<Rightarrow> bool" where
  "current_ok C S cur = (length cur \<le> C \<or> (cur \<in> S \<and> C < length cur))"

section \<open>summarizeTranscript\<close>

datatype model = PRIMARY | FALLBACK

text \<open>
  The caller-visible messages \<open>summarizeTranscript\<close> sends on the \<open>summarizing\<close> stage,
  by the place that sends them and the values interpolated: the long-transcript notice
  (thousands of characters), the per-chunk progress notice (\<open>i + 1\<close>, number of chunks),
  the per-chunk switch to the fallback model (\<open>i + 1\<close>), the merge notice, and the switch
  to the fallback model on the direct path (the retry-after text, \<open>None\<close> for the fixed
  placeholder).
\<close>

datatype notice =
    LongTranscript nat
  | ChunkProgress nat nat
  | ChunkFallback nat
  | Integrating
  | DirectFallback "string option"

text \<open>What reaches the caller while \<open>summarizeTranscript\<close> runs: a notice through
  \<open>send\<close>, or a tick of the keep-alive timer through \<open>onHeartbeat\<close>.\<close>

datatype emission = Notice notice | Heartbeat

record llm_call =
  call_model :: model
  call_content :: jsstring
  call_partial :: bool

text \<open>
  The text-generation provider: the outcome of the \<open>k\<close>-th request (from 0) of this
  job, an error or \<open>choices[0]?.message?.content\<close> (which may be absent), and the number
  of keep-alive ticks that fire while that request is outstanding.
\<close>

record llm_env =
  llm :: "nat \<Rightarrow> llm_call \<Rightarrow> api_error + jsstring option"
  beats :: "nat \<Rightarrow> nat"

record sstate =
  calls :: "llm_call list"
  emitted :: "emission list"

definition callModel ::
  "llm_env \<Rightarrow> sstate \<Rightarrow> model \<Rightarrow> jsstring \<Rightarrow> bool \<Rightarrow> (api_error + jsstring option) \<times> sstate" where
  "callModel env st m content isPartial =
     (let c = \<lparr>call_model = m, call_content = content, call_partial = isPartial\<rparr> in
      (llm env (length (calls st)) c,
       st\<lparr>calls := calls st @ [c],
          emitted := emitted st @ replicate (beats env (length (calls st))) Heartbeat\<rparr>))"

definition send :: "notice \<Rightarrow> sstate \<Rightarrow> sstate" where
  "send n st = st\<lparr>emitted := emitted st @ [Notice n]\<rparr>"

text \<open>\<open>e?.status === 429 || e?.code === 'rate_limit_exceeded'\<close>\<close>

definition isRateLimit :: "api_error \<Rightarrow> bool" where
  "isRateLimit e = (err_status e = Some 429 \<or> err_code e = Some ''rate_limit_exceeded'')"

text \<open>\<open>e.message?.match(/try again in ([\d\w\.]+)/)\<close>, the captured group.\<close>

definition isTokenChar :: "char \<Rightarrow> bool" where
  "isTokenChar c =
     (let n = (of_char c :: nat) in
      (48 \<le> n \<and> n \<le> 57) \<or> (65 \<le> n \<and> n \<le> 90) \<or> (97 \<le> n \<and> n \<le> 122) \<or> n = 95 \<or> n = 46)"

fun retryAfterMatch :: "string \<Rightarrow> string option" where
  "retryAfterMatch [] = None"
| "retryAfterMatch (c # cs) =
     (if startsWith (c # cs) ''try again in '' \<and> takeWhile isTokenChar (drop 13 (c # cs)) \<noteq> []
      then Some (takeWhile isTokenChar (drop 13 (c # cs)))
      else retryAfterMatch cs)"

definition retryTime :: "api_error \<Rightarrow> string option" where
  "retryTime e = (case err_message e of None \<Rightarrow> None | Some m \<Rightarrow> retryAfterMatch m)"

text \<open>\<open>content || dflt\<close> for a string that may be absent.\<close>

definition orElse :: "'a list option \<Rightarrow> 'a list \<Rightarrow> 'a list" where
  "orElse content dflt = (case content of None \<Rightarrow> dflt | Some s \<Rightarrow> if s = [] then dflt else s)"

definition GENERATION_FAILED :: jsstring where
  "GENERATION_FAILED = [0x751F, 0x6210, 0x5931, 0x8D25]"

definition CHUNK_THRESHOLD :: nat where
  "CHUNK_THRESHOLD = 15000"

text \<open>\<open>chunkSummaries.join('\n\n---\n\n')\<close>\<close>

definition SEPARATOR :: jsstring where
  "SEPARATOR = [0x000A, 0x000A, 0x002D, 0x002D, 0x002D, 0x000A, 0x000A]"

fun join :: "jsstring \<Rightarrow> jsstring list \<Rightarrow> jsstring" where
  "join sep [] = []"
| "join sep [x] = x"
| "join sep (x # y # ys) = x @ sep @ join sep (y # ys)"

text \<open>The template literal \<open>finalPrompt\<close>, before and after \<open>${mergedContent}\<close>.\<close>

definition FINAL_PROMPT_HEAD :: jsstring where
  "FINAL_PROMPT_HEAD =
     [0x6211, 0x5DF2, 0x7ECF, 0x9010, 0x6BB5, 0x5206, 0x6790, 0x4E86, 0x8FD9, 0x4E2A, 0x64AD,
      0x5BA2, 0xFF0C, 0x4EE5, 0x4E0B, 0x662F, 0x5404, 0x90E8, 0x5206, 0x7684, 0x8BE6, 0x7EC6,
      0x7B14, 0x8BB0, 0xFF1A, 0x000A, 0x000A]"

definition FINAL_PROMPT_TAIL :: jsstring where
  "FINAL_PROMPT_TAIL =
     [0x000A, 0x000A, 0x73B0, 0x5728, 0xFF0C, 0x8BF7, 0x57FA, 0x4E8E, 0x8FD9, 0x4E9B, 0x7B14,
      0x8BB0, 0xFF0C, 0x751F, 0x6210, 0x4E00, 0x4EFD, 0x5B8C, 0x6574, 0x7684, 0x3001, 0x7ED3,
      0x6784, 0x5316, 0x7684, 0x64AD, 0x5BA2, 0x603B, 0x7ED3, 0x3002, 0x52A1, 0x5FC5, 0x9075,
      0x5FAA, 0x4E4B, 0x524D, 0x7ED9, 0x4F60, 0x7684, 0x8F93, 0x51FA, 0x7ED3, 0x6784, 0xFF0C,
      0x5305, 0x62EC, 0x6807, 0x9898, 0x3001, 0x5168, 0x666F, 0x5BFC, 0x8BFB, 0x3001, 0x6DF1,
      0x5EA6, 0x590D, 0x76D8, 0x7B14, 0x8BB0, 0xFF08, 0x5206, 0x6210, 0x5408, 0x7406, 0x7684,
      0x0020, 0x0050, 0x0061, 0x0072, 0x0074, 0xFF09, 0xFF0C, 0x4EE5, 0x53CA, 0x6700, 0x540E,
      0x7684, 0x0020, 0x0041, 0x006D, 0x0079, 0x0020, 0x7684, 0x788E, 0x788E, 0x5FF5, 0x3002,
      0x000A, 0x000A, 0x002A, 0x002A, 0x91CD, 0x8981, 0x002A, 0x002A, 0xFF1A, 0x4E0D, 0x8981,
      0x91CD, 0x590D, 0x5185, 0x5BB9, 0xFF0C, 0x800C, 0x662F, 0x6574, 0x5408, 0x6210, 0x4E00,
      0x4E2A, 0x8FDE, 0x8D2F, 0x7684, 0x3001, 0x903B, 0x8F91, 0x6E05, 0x6670, 0x7684, 0x5B8C,
      0x6574, 0x6587, 0x6863, 0x3002]"

definition finalPrompt :: "jsstring \<Rightarrow> jsstring" where
  "finalPrompt mergedContent = FINAL_PROMPT_HEAD @ mergedContent @ FINAL_PROMPT_TAIL"

text \<open>The \<open>for\<close> loop over \<open>chunks\<close> of the chunked branch; an \<open>Inl\<close> is the error
  that leaves the loop towards the handler of \<open>summarizeTranscript\<close>.\<close>

fun summarize_chunks ::
  "llm_env \<Rightarrow> nat \<Rightarrow> nat \<Rightarrow> jsstring list \<Rightarrow> jsstring list \<Rightarrow> sstate
     \<Rightarrow> (api_error + jsstring list) \<times> sstate" where
  "summarize_chunks env n i [] chunkSummaries st = (Inr chunkSummaries, st)"
| "summarize_chunks env n i (chunk # rest) chunkSummaries st =
     (case callModel env (send (ChunkProgress (i + 1) n) st) PRIMARY chunk True of
        (Inr response, st2) \<Rightarrow>
          summarize_chunks env n (i + 1) rest (chunkSummaries @ [orElse response []]) st2
      | (Inl e, st2) \<Rightarrow>
          if isRateLimit e then
            (case callModel env (send (ChunkFallback (i + 1)) st2) FALLBACK chunk True of
               (Inr response, st3) \<Rightarrow>
                 summarize_chunks env n (i + 1) rest (chunkSummaries @ [orElse response []]) st3
             | (Inl e2, st3) \<Rightarrow> (Inl e2, st3))
          else (Inl e, st2))"

text \<open>The branch \<open>needsChunking\<close>; \<open>Math.round(transcript.length / 1000)\<close> rounds half up.\<close>

definition summarize_chunked ::
  "llm_env \<Rightarrow> jsstring \<Rightarrow> sstate \<Rightarrow> (api_error + jsstring) \<times> sstate" where
  "summarize_chunked env transcript st =
     (let chunks = splitTranscriptIntoChunks transcript 8000 in
      case summarize_chunks env (length chunks) 0 chunks []
             (send (LongTranscript ((length transcript + 500) div 1000)) st) of
        (Inl e, st1) \<Rightarrow> (Inl e, st1)
      | (Inr chunkSummaries, st1) \<Rightarrow>
          (case callModel env (send Integrating st1) PRIMARY
                  (finalPrompt (join SEPARATOR chunkSummaries)) False of
             (Inl e, st2) \<Rightarrow> (Inl e, st2)
           | (Inr finalResponse, st2) \<Rightarrow> (Inr (orElse finalResponse GENERATION_FAILED), st2)))"

text \<open>The other branch: one request for the whole transcript.\<close>

definition summarize_direct ::
  "llm_env \<Rightarrow> jsstring \<Rightarrow> sstate \<Rightarrow> (api_error + jsstring) \<times> sstate" where
  "summarize_direct env transcript st =
     (case callModel env st PRIMARY transcript False of
        (Inr response, st1) \<Rightarrow> (Inr (orElse response GENERATION_FAILED), st1)
      | (Inl e, st1) \<Rightarrow>
          if isRateLimit e then
            (case callModel env (send (DirectFallback (retryTime e)) st1) FALLBACK transcript False of
               (Inr response, st2) \<Rightarrow> (Inr (orElse response GENERATION_FAILED), st2)
             | (Inl e2, st2) \<Rightarrow> (Inl e2, st2))
          else (Inl e, st1))"

text \<open>The handler around both branches: what \<open>summarizeTranscript\<close> throws for \<open>e\<close>.\<close>

definition summarize_error :: "api_error \<Rightarrow> thrown" where
  "summarize_error e =
     (if err_status e = Some 429 then QuotaExhausted (retryTime e)
      else SummarizationFailed
             (case err_message e of None \<Rightarrow> None | Some m \<Rightarrow> if m = [] then None else Some m))"

text \<open>
  The value returned is \<open>{type, summary, highlights}\<close>; \<open>type\<close> is a constant and
  \<open>highlights\<close> is computed from \<open>summary\<close> alone, so the model keeps \<open>summary\<close>.
\<close>

definition summarizeTranscript :: "llm_env \<Rightarrow> jsstring \<Rightarrow> (thrown + jsstring) \<times> sstate" where
  "summarizeTranscript env transcript =
     (case (if length transcript > CHUNK_THRESHOLD
            then summarize_chunked env transcript \<lparr>calls = [], emitted = []\<rparr>
            else summarize_direct env transcript \<lparr>calls = [], emitted = []\<rparr>) of
        (Inl e, st) \<Rightarrow> (Inl (summarize_error e), st)
      | (Inr summary, st) \<Rightarrow> (Inr summary, st))"

section \<open>POST\<close>

subsection \<open>parseXiaoyuzhouUrl and downloadAudioToStream\<close>








subsection \<open>The event stream\<close>

datatype stage = Parsing | Downloading | Transcribing | Summarizing | Done | Error

record done_data =
  data_title :: jsstring
  data_transcript :: jsstring
  data_audioUrl :: jsstring
  data_summary :: jsstring

text \<open>
  The objects passed to \<open>send\<close>: \<open>{stage, progress}\<close>, \<open>{stage: 'summarizing', message}\<close>,
  \<open>{stage: 'done', progress: 100, data}\<close> and \<open>{stage: 'error', error}\<close>. The \<open>error\<close>
  event carries what was caught; the text derived from it is not modelled. Every
  \<open>send\<close> is taken to succeed (the caller stays connected).
\<close>

datatype event =
    Progress stage int
  | Status notice
  | Finished done_data
  | Failed thrown


text \<open>
  What the handler does to the world outside, in the order in which it does it: the call
  of \<open>mkdir\<close> on the transient directory, an event enqueued on the stream, the closing
  of the stream, and the call of \<open>rm\<close> on the transient directory.
\<close>

datatype action = Mkdir | Sent event | Closed | Rm

text \<open>
  The job: the actions taken so far, oldest first, and whether the transient directory
  exists on disk.
\<close>

record job =
  actions :: "action list"
  dir_exists :: bool



definition close :: "job \<Rightarrow> job" where
  "close j = j\<lparr>actions := actions j @ [Closed]\<rparr>"




text \<open>\<open>Math.min(progress + (Math.random() * 0.2), 98)\<close>, for the value \<open>r\<close> that
  \<open>Math.random()\<close> returns; the literal \<open>0.2\<close> is the double nearest to one fifth.\<close>

definition heartbeat_progress :: "rat \<Rightarrow> rat \<Rightarrow> rat" where
  "heartbeat_progress progress r = min (js_add progress (js_mul r (to_double (2 / 10)))) 98"

text \<open>
  The callback given to \<open>summarizeTranscript\<close> as \<open>onHeartbeat\<close>, applied to what the
  function emitted, in order: \<open>progress\<close> is the variable of \<open>POST\<close>, \<open>k\<close> counts the
  ticks.
\<close>

fun relay :: "(nat \<Rightarrow> rat) \<Rightarrow> emission list \<Rightarrow> rat \<Rightarrow> nat \<Rightarrow> event list" where
  "relay rnd [] progress k = []"
| "relay rnd (Notice n # es) progress k = Status n # relay rnd es progress k"
| "relay rnd (Heartbeat # es) progress k =
     Progress Summarizing \<lfloor>heartbeat_progress progress (rnd k)\<rfloor>
       # relay rnd es (heartbeat_progress progress (rnd k)) (k + 1)"








datatype response = JsonResponse nat | EventStream



section \<open>Notions used in the properties\<close>

text \<open>The \<open>progress\<close> members of the events that carry one, in order.\<close>

fun progress_values :: "event list \<Rightarrow> int list" where
  "progress_values [] = []"
| "progress_values (Progress s p # es) = p # progress_values es"
| "progress_values (e # es) = progress_values es"






section \<open>Concrete runs\<close>

text \<open>A provider error whose cause is a connection reset, and one with HTTP status 429.\<close>

definition connection_reset :: api_error where
  "connection_reset =
     \<lparr>err_status = None, err_code = None, err_cause_code = Some ''ECONNRESET'',
      err_message = None\<rparr>"

definition rate_limited :: api_error where
  "rate_limited =
     \<lparr>err_status = Some 429, err_code = Some ''rate_limit_exceeded'', err_cause_code = None,
      err_message = Some ''Rate limit reached. Please try again in 7m12s.''\<rparr>"

text \<open>A speech-to-text service that is never reachable, and one that answers the second
  request with the text \<open>hi\<close>.\<close>

definition always_reset :: "nat \<Rightarrow> api_error + jsstring" where
  "always_reset k = Inl connection_reset"

definition reset_once :: "nat \<Rightarrow> api_error + jsstring" where
  "reset_once k = (if k = 1 then Inl connection_reset else Inr (ascii ''hi''))"

text \<open>
  A speech-to-text service that answers every request with the text \<open>hi\<close>, and an audio
  file of duration \<open>d\<close> seconds in a fresh transient directory: a segment run leaves the
  input file and \<open>n\<close> chunk files in the directory (one chunk file for \<open>n = 0\<close>), and
  \<open>readdir\<close> lists the last chunk file first.
\<close>

definition stt_hi :: "string \<Rightarrow> nat \<Rightarrow> api_error + jsstring" where
  "stt_hi path k = Inr (ascii ''hi'')"

definition audio_of :: "rat \<Rightarrow> nat \<Rightarrow> audio_env" where
  "audio_of d n =
     \<lparr>probe_result = Inr (Some d), split_result = Inr (n - 1),
      other_files = [''input.mp3''], readdir_failure = None,
      readdir_order = (\<lambda>f. if f = chunk_name ''.mp3'' (n - 1) then 0 else 1),
      stt = stt_hi\<rparr>"

text \<open>
  Two sentences of 5000 letters separated by a line feed; a line feed followed by 8000
  letters; and \<open>n\<close> spaces.
\<close>

definition two_sentences :: jsstring where
  "two_sentences = replicate 5000 0x0061 @ 0x000A # replicate 5000 0x0062"



text \<open>
  A text-generation provider whose primary model answers the first \<open>n\<close> requests of the
  job and is rate-limited afterwards, while the fallback model always answers; no
  keep-alive tick fires.
\<close>

definition primary_limited_after :: "nat \<Rightarrow> llm_env" where
  "primary_limited_after n =
     \<lparr>llm = (\<lambda>k c. if k < n \<or> call_model c = FALLBACK then Inr (Some (ascii ''# Notes''))
                     else Inl rate_limited),
      beats = (\<lambda>k. 0)\<rparr>"

text \<open>A transcript of 15001 letters, and one of two letters.\<close>

definition long_transcript :: jsstring where
  "long_transcript = replicate 15001 0x0061"

definition short_transcript :: jsstring where
  "short_transcript = ascii ''hi''"








text \<open>A rate-limit error that carries the error code but no HTTP status, and a provider
  that answers every request with it.\<close>

definition rate_limited_code_only :: api_error where
  "rate_limited_code_only =
     \<lparr>err_status = None, err_code = Some ''rate_limit_exceeded'', err_cause_code = None,
      err_message = Some ''Rate limit reached. Please try again in 7m12s.''\<rparr>"

definition always_code_limited :: llm_env where
  "always_code_limited = \<lparr>llm = (\<lambda>k c. Inl rate_limited_code_only), beats = (\<lambda>k. 0)\<rparr>"

section \<open>Properties of transcribeSingleFile\<close>

text \<open>
  C4, against the claim as stated. When all three requests fail with a connection reset,
  the function sleeps 1000 ms and 2000 ms and then rethrows the third error: there is no
  third delay of 4000 ms, and what is thrown is the provider's error itself.
\<close>

theorem transcribeSingleFile_no_third_delay:
  "delays (transcribeSingleFile always_reset 3) = [1000, 2000] \<and>
   delays (transcribeSingleFile always_reset 3) \<noteq> [1000, 2000, 4000] \<and>
   attempts (transcribeSingleFile always_reset 3) = 3 \<and>
   outcome (transcribeSingleFile always_reset 3) = Inl (ApiError connection_reset)"
  by (simp add: transcribeSingleFile_def always_reset_def isNetworkError_def
      connection_reset_def)

text \<open>
  C4, amended. With the default of three attempts, \<open>transcribeSingleFile\<close> makes one,
  two or three requests; before the second it sleeps 1000 ms and before the third
  2000 ms, and nothing else; every request before the last one made failed with a network
  error; the result is the text of the last request made, or its error rethrown
  unchanged; and it stops before the third request only on a success or on an error that
  is not a network error.
\<close>

theorem transcribeSingleFile_retry_policy:
  "let r = transcribeSingleFile call 3 in
     attempts r \<in> {1, 2, 3} \<and>
     delays r = take (attempts r - 1) [1000, 2000] \<and>
     (\<forall>k \<in> {1..<attempts r}. \<exists>e. call k = Inl e \<and> isNetworkError e) \<and>
     outcome r = (case call (attempts r) of Inr t \<Rightarrow> Inr t | Inl e \<Rightarrow> Inl (ApiError e)) \<and>
     (attempts r < 3 \<longrightarrow> (\<forall>e. call (attempts r) = Inl e \<longrightarrow> \<not> isNetworkError e))"
proof (cases "call 1")
  case (Inr t)
  then show ?thesis
    by (simp add: transcribeSingleFile_def numeral_2_eq_2 numeral_3_eq_3)
next
  case e1: (Inl e1)
  show ?thesis
  proof (cases "isNetworkError e1")
    case False
    with e1 show ?thesis
      by (simp add: transcribeSingleFile_def numeral_2_eq_2 numeral_3_eq_3)
  next
    case n1: True
    show ?thesis
    proof (cases "call 2")
      case (Inr t)
      with e1 n1 show ?thesis
        by (simp add: transcribeSingleFile_def numeral_2_eq_2 numeral_3_eq_3)
    next
      case e2: (Inl e2)
      show ?thesis
      proof (cases "isNetworkError e2")
        case False
        with e1 n1 e2 show ?thesis
          by (simp add: transcribeSingleFile_def numeral_2_eq_2 numeral_3_eq_3)
      next
        case n2: True
        with e1 n1 e2 show ?thesis
          by (cases "call 3")
            (auto simp add: transcribeSingleFile_def numeral_2_eq_2 numeral_3_eq_3 less_Suc_eq)
      qed
    qed
  qed
qed

text \<open>The policy at a run with one retry: a reset, a sleep of one second, a success.\<close>

theorem transcribeSingleFile_retry_policy_witness:
  "attempts (transcribeSingleFile reset_once 3) = 2 \<and>
   delays (transcribeSingleFile reset_once 3) = [1000] \<and>
   {1..<attempts (transcribeSingleFile reset_once 3)} = {1} \<and>
   reset_once 1 = Inl connection_reset \<and> isNetworkError connection_reset \<and>
   outcome (transcribeSingleFile reset_once 3) = Inr (ascii ''hi'')"
proof -
  have a: "attempts (transcribeSingleFile reset_once 3) = 2"
    by (simp add: transcribeSingleFile_def reset_once_def isNetworkError_def
        connection_reset_def)
  have r2: "reset_once 2 = Inr (ascii ''hi'')"
    by (simp add: reset_once_def)
  have r1: "reset_once 1 = Inl connection_reset"
    by (simp add: reset_once_def)
  have one: "{1..<2::nat} = {1}"
    by auto
  from transcribeSingleFile_retry_policy [of reset_once] a r1 r2 one show ?thesis
    by (simp add: Let_def)
qed

section \<open>Properties of the numbers\<close>

text \<open>
  Rounding to a double is monotone on the numbers that are not negative, leaves a double
  unchanged, and raises a positive number by at most one part in \<open>2 ^ 53\<close>.
\<close>

lemma pow2_powi: "pow2 e = 2 powi e"
  by (simp add: pow2_def power_int_def inverse_eq_divide power_one_over)

lemma pow2_pos: "0 < pow2 e"
  by (simp add: pow2_powi)

lemma pow2_add: "pow2 (a + b) = pow2 a * pow2 b"
  by (simp add: pow2_powi power_int_add)

lemma pow2_mono: "a \<le> b \<Longrightarrow> pow2 a \<le> pow2 b"
  by (simp add: pow2_powi power_int_increasing)

lemma pow2_less: "pow2 a < pow2 b \<Longrightarrow> a < b"
  using pow2_mono [of b a] by (cases "a < b") simp_all

lemma pow2_nat: "pow2 (int n) = 2 ^ n"
  by (simp add: pow2_def)

lemma pow2_52: "pow2 e = 2 ^ 52 * pow2 (e - 52)"
proof -
  have "pow2 e = pow2 (52 + (e - 52))" by simp
  also have "\<dots> = pow2 52 * pow2 (e - 52)" by (rule pow2_add)
  also have "pow2 52 = 2 ^ 52" by (simp add: pow2_def)
  finally show ?thesis .
qed

lemma pow2_53: "pow2 (e + 1) = 2 ^ 53 * pow2 (e - 52)"
proof -
  have "pow2 (e + 1) = pow2 (53 + (e - 52))" by (rule arg_cong [of _ _ pow2]) simp
  also have "\<dots> = pow2 53 * pow2 (e - 52)" by (rule pow2_add)
  also have "pow2 53 = 2 ^ 53" by (simp add: pow2_def)
  finally show ?thesis .
qed

lemma pow2_Suc: "pow2 (e + 1) = 2 * pow2 e"
proof -
  have "pow2 (e + 1) = pow2 (1 + e)" by (simp only: add.commute)
  also have "\<dots> = pow2 1 * pow2 e" by (rule pow2_add)
  also have "pow2 1 = 2" by (simp add: pow2_def)
  finally show ?thesis .
qed

lemma ilog2_spec:
  "1 \<le> a \<Longrightarrow> 0 \<le> ilog2 a \<and> 2 ^ nat (ilog2 a) \<le> a \<and> a < 2 ^ nat (ilog2 a + 1)"
proof (induction a rule: ilog2.induct)
  case (1 a)
  show ?case
  proof (cases "a \<le> 1")
    case True
    with 1(2) have "a = 1" by simp
    then show ?thesis by (simp add: ilog2.simps)
  next
    case False
    then have "1 \<le> a div 2" by simp
    with 1(1) False have ih: "0 \<le> ilog2 (a div 2)" "2 ^ nat (ilog2 (a div 2)) \<le> a div 2"
      "a div 2 < 2 ^ nat (ilog2 (a div 2) + 1)"
      by simp_all
    have l: "ilog2 a = ilog2 (a div 2) + 1"
      using False by (subst ilog2.simps) simp
    have n: "nat (ilog2 (a div 2) + 1) = Suc (nat (ilog2 (a div 2)))"
      "nat (ilog2 (a div 2) + 1 + 1) = Suc (Suc (nat (ilog2 (a div 2))))"
      using ih(1) by simp_all
    from ih(2,3) show ?thesis
      unfolding l n by (simp add: ih(1)) linarith
  qed
qed

lemma ilog2_rat:
  assumes "1 \<le> a"
  shows "pow2 (ilog2 a) \<le> of_int a" "of_int a < pow2 (ilog2 a + 1)"
proof -
  from ilog2_spec [OF assms] have s: "0 \<le> ilog2 a" "2 ^ nat (ilog2 a) \<le> a"
    "a < 2 ^ nat (ilog2 a + 1)"
    by simp_all
  have "(of_int (2 ^ nat (ilog2 a)) :: rat) \<le> of_int a"
    using s(2) by (simp only: of_int_le_iff)
  then show "pow2 (ilog2 a) \<le> of_int a"
    using s(1) by (simp add: pow2_def)
  have "(of_int a :: rat) < of_int (2 ^ nat (ilog2 a + 1))"
    using s(3) by (simp only: of_int_less_iff)
  then show "of_int a < pow2 (ilog2 a + 1)"
    using s(1) by (simp add: pow2_def)
qed

lemma exponent_spec:
  assumes "0 < x"
  shows "pow2 (exponent x) \<le> x \<and> x < pow2 (exponent x + 1)"
proof -
  obtain a b where q: "quotient_of x = (a, b)"
    by (cases "quotient_of x") auto
  then have b: "0 < b" and x: "x = of_int a / of_int b"
    by (simp_all add: quotient_of_denom_pos quotient_of_div)
  have a: "1 \<le> a"
  proof (rule ccontr)
    assume "\<not> 1 \<le> a"
    then have "(of_int a :: rat) \<le> 0" by simp
    with b have "x \<le> 0" unfolding x by (simp add: divide_le_0_iff)
    with assms show False by simp
  qed
  from b have b1: "1 \<le> b" by simp
  let ?e = "ilog2 a - ilog2 b"
  have bp: "0 < (of_int b :: rat)" using b by simp
  have "x * of_int b < pow2 (ilog2 a + 1)"
    using ilog2_rat(2) [OF a] bp unfolding x by simp
  also have "\<dots> = pow2 (?e + 1) * pow2 (ilog2 b)"
    by (simp add: pow2_add [symmetric])
  also have "\<dots> \<le> pow2 (?e + 1) * of_int b"
    using ilog2_rat(1) [OF b1] pow2_pos [of "?e + 1"] by simp
  finally have up: "x < pow2 (?e + 1)"
    using bp by simp
  have "pow2 (?e - 1) * of_int b \<le> pow2 (?e - 1) * pow2 (ilog2 b + 1)"
    using ilog2_rat(2) [OF b1] pow2_pos [of "?e - 1"] by simp
  also have "\<dots> = pow2 (ilog2 a)"
    by (simp add: pow2_add [symmetric])
  also have "\<dots> \<le> x * of_int b"
    using ilog2_rat(1) [OF a] bp unfolding x by simp
  finally have low: "pow2 (?e - 1) \<le> x"
    using bp by simp
  show ?thesis
  proof (cases "pow2 ?e \<le> x")
    case True
    then have "exponent x = ?e"
      by (simp add: exponent_def q)
    with True up show ?thesis by simp
  next
    case False
    then have "exponent x = ?e - 1"
      by (simp add: exponent_def q)
    with False low show ?thesis by simp
  qed
qed

lemma exponent_unique:
  assumes "0 < x" "pow2 e \<le> x" "x < pow2 (e + 1)"
  shows "exponent x = e"
proof -
  from exponent_spec [OF assms(1)] have s: "pow2 (exponent x) \<le> x" "x < pow2 (exponent x + 1)"
    by simp_all
  from s(1) assms(3) have "pow2 (exponent x) < pow2 (e + 1)" by simp
  then have "exponent x < e + 1" by (rule pow2_less)
  moreover from assms(2) s(2) have "pow2 e < pow2 (exponent x + 1)" by simp
  then have "e < exponent x + 1" by (rule pow2_less)
  ultimately show ?thesis by simp
qed

lemma exponent_mono:
  assumes "0 < x" "x \<le> y"
  shows "exponent x \<le> exponent y"
proof -
  from assms have y: "0 < y" by simp
  from exponent_spec [OF assms(1)] exponent_spec [OF y] assms(2)
  have "pow2 (exponent x) < pow2 (exponent y + 1)" by simp
  then have "exponent x < exponent y + 1" by (rule pow2_less)
  then show ?thesis by simp
qed

lemma round_half_even_cases:
  "round_half_even q = \<lfloor>q\<rfloor> \<or> round_half_even q = \<lfloor>q\<rfloor> + 1"
  by (simp add: round_half_even_def Let_def)

lemma round_half_even_int: "round_half_even (of_int n) = n"
  by (simp add: round_half_even_def)

lemma nearest:
  fixes q :: rat
  assumes "of_int n \<le> q" "q < of_int n + 1"
  defines "r \<equiv> (if q - of_int n < 1 / 2 then n else if 1 / 2 < q - of_int n then n + 1
                   else if even n then n else n + 1)"
  shows "of_int r \<le> q + 1 / 2" "q - 1 / 2 \<le> of_int r"
  using assms(1,2) unfolding r_def by auto

lemma round_half_even_error:
  "of_int (round_half_even q) \<le> q + 1 / 2" "q - 1 / 2 \<le> of_int (round_half_even q)"
proof -
  have f: "of_int \<lfloor>q\<rfloor> \<le> q" "q < of_int \<lfloor>q\<rfloor> + 1"
    by linarith+
  from nearest [OF f] show "of_int (round_half_even q) \<le> q + 1 / 2"
    "q - 1 / 2 \<le> of_int (round_half_even q)"
    unfolding round_half_even_def Let_def by blast+
qed

lemma round_half_even_mono:
  assumes "q \<le> q'"
  shows "round_half_even q \<le> round_half_even q'"
proof (cases "\<lfloor>q\<rfloor> = \<lfloor>q'\<rfloor>")
  case True
  with assms show ?thesis
    by (auto simp: round_half_even_def Let_def)
next
  case False
  with assms have "\<lfloor>q\<rfloor> < \<lfloor>q'\<rfloor>"
    using floor_mono [OF assms] by simp
  moreover have "round_half_even q \<le> \<lfloor>q\<rfloor> + 1"
    using round_half_even_cases [of q] by auto
  moreover have "\<lfloor>q'\<rfloor> \<le> round_half_even q'"
    using round_half_even_cases [of q'] by auto
  ultimately show ?thesis by simp
qed

text \<open>The significand of a positive number.\<close>

lemma significand:
  assumes "0 < x"
  defines "m \<equiv> round_half_even (x / pow2 (exponent x - 52))"
  shows "to_double x = of_int m * pow2 (exponent x - 52)" "2 ^ 52 \<le> m" "m \<le> 2 ^ 53"
proof -
  let ?u = "pow2 (exponent x - 52)"
  from exponent_spec [OF assms(1)] have s: "pow2 (exponent x) \<le> x" "x < pow2 (exponent x + 1)"
    by simp_all
  have u: "0 < ?u" by (rule pow2_pos)
  have e: "pow2 (exponent x) = 2 ^ 52 * ?u" "pow2 (exponent x + 1) = 2 ^ 53 * ?u"
    by (rule pow2_52, rule pow2_53)
  have "2 ^ 52 \<le> x / ?u" "x / ?u \<le> 2 ^ 53"
    using s u unfolding e by (simp_all add: field_simps)
  then have "round_half_even (of_int (2 ^ 52)) \<le> m" "m \<le> round_half_even (of_int (2 ^ 53))"
    unfolding m_def by (simp_all add: round_half_even_mono)
  then show "2 ^ 52 \<le> m" "m \<le> 2 ^ 53"
    unfolding round_half_even_int by simp_all
  show "to_double x = of_int m * ?u"
    using assms(1) by (simp add: to_double_def m_def)
qed

lemma to_double_bounds:
  assumes "0 < x"
  shows "pow2 (exponent x) \<le> to_double x" "to_double x \<le> pow2 (exponent x + 1)"
proof -
  let ?u = "pow2 (exponent x - 52)"
  let ?m = "round_half_even (x / ?u)"
  note m = significand [OF assms]
  have u: "0 < ?u" by (rule pow2_pos)
  have e: "pow2 (exponent x) = 2 ^ 52 * ?u" "pow2 (exponent x + 1) = 2 ^ 53 * ?u"
    by (rule pow2_52, rule pow2_53)
  have "(of_int (2 ^ 52) :: rat) \<le> of_int ?m" "(of_int ?m :: rat) \<le> of_int (2 ^ 53)"
    using m(2,3) by (simp_all only: of_int_le_iff)
  then show "pow2 (exponent x) \<le> to_double x" "to_double x \<le> pow2 (exponent x + 1)"
    unfolding m(1) e using u by simp_all
qed

lemma to_double_0: "to_double 0 = 0"
  by (simp add: to_double_def)

lemma to_double_pos: "0 < x \<Longrightarrow> 0 < to_double x"
  using to_double_bounds(1) [of x] pow2_pos [of "exponent x"] by simp

lemma to_double_mono:
  assumes "0 \<le> x" "x \<le> y"
  shows "to_double x \<le> to_double y"
proof (cases "x = 0")
  case True
  show ?thesis
  proof (cases "y = 0")
    case True
    with \<open>x = 0\<close> show ?thesis by simp
  next
    case False
    with assms True have "0 < y" by simp
    from to_double_pos [OF this] True show ?thesis
      by (simp add: to_double_0)
  qed
next
  case False
  with assms have x: "0 < x" and y: "0 < y" by simp_all
  show ?thesis
  proof (cases "exponent x = exponent y")
    case True
    let ?u = "pow2 (exponent y - 52)"
    have u: "0 < ?u" by (rule pow2_pos)
    have "x / ?u \<le> y / ?u"
      using assms(2) u by (simp add: divide_right_mono)
    then have "round_half_even (x / ?u) \<le> round_half_even (y / ?u)"
      by (rule round_half_even_mono)
    then have "(of_int (round_half_even (x / ?u)) :: rat) \<le> of_int (round_half_even (y / ?u))"
      by (simp only: of_int_le_iff)
    then show ?thesis
      unfolding significand(1) [OF x] significand(1) [OF y] True using u by simp
  next
    case False
    with exponent_mono [OF x assms(2)] have "exponent x + 1 \<le> exponent y" by simp
    then have "pow2 (exponent x + 1) \<le> pow2 (exponent y)" by (rule pow2_mono)
    with to_double_bounds(2) [OF x] to_double_bounds(1) [OF y] show ?thesis by simp
  qed
qed

lemma to_double_idem:
  assumes "0 \<le> x"
  shows "to_double (to_double x) = to_double x"
proof (cases "x = 0")
  case True
  then show ?thesis by (simp add: to_double_0)
next
  case False
  with assms have x: "0 < x" by simp
  let ?e = "exponent x"
  let ?u = "pow2 (?e - 52)"
  let ?m = "round_half_even (x / ?u)"
  note m = significand [OF x]
  have u: "0 < ?u" by (rule pow2_pos)
  have y: "0 < to_double x" using x by (rule to_double_pos)
  show ?thesis
  proof (cases "?m = 2 ^ 53")
    case True
    have v: "to_double x = pow2 (?e + 1)"
      unfolding m(1) True pow2_53 by simp
    have p: "0 < pow2 (?e + 1)" by (rule pow2_pos)
    have "pow2 (?e + 1) < pow2 (?e + 1 + 1)"
      unfolding pow2_Suc [of "?e + 1"] using p by simp
    with p have ex: "exponent (pow2 (?e + 1)) = ?e + 1"
      by (intro exponent_unique) simp_all
    have "pow2 (?e + 1) / pow2 (?e + 1 - 52) = of_int (2 ^ 52)"
      using pow2_52 [of "?e + 1"] pow2_pos [of "?e + 1 - 52"] by simp
    then have "to_double (pow2 (?e + 1)) = of_int (2 ^ 52) * pow2 (?e + 1 - 52)"
      using p by (simp only: to_double_def abs_of_pos [OF p] ex round_half_even_int) simp
    also have "\<dots> = pow2 (?e + 1)"
      using pow2_52 [of "?e + 1"] by simp
    finally show ?thesis
      unfolding v .
  next
    case False
    with m(3) have lt: "?m < 2 ^ 53" by simp
    have e: "pow2 ?e = 2 ^ 52 * ?u" "pow2 (?e + 1) = 2 ^ 53 * ?u"
      by (rule pow2_52, rule pow2_53)
    have "(of_int ?m :: rat) < of_int (2 ^ 53)"
      using lt by (simp only: of_int_less_iff)
    then have "to_double x < pow2 (?e + 1)"
      unfolding m(1) e using u by simp
    with to_double_bounds(1) [OF x] y have ex: "exponent (to_double x) = ?e"
      by (intro exponent_unique)
    have q: "to_double x / ?u = of_int ?m"
      unfolding m(1) using u by simp
    have "to_double (to_double x) =
        of_int (round_half_even (to_double x / pow2 (exponent (to_double x) - 52)))
          * pow2 (exponent (to_double x) - 52)"
      using y by (simp add: to_double_def [of "to_double x"])
    also have "\<dots> = of_int (round_half_even (of_int ?m)) * ?u"
      unfolding ex q ..
    also have "\<dots> = to_double x"
      unfolding round_half_even_int m(1) ..
    finally show ?thesis .
  qed
qed

lemma to_double_upper:
  assumes "0 < x"
  shows "to_double x \<le> x * (1 + 1 / 2 ^ 53)"
proof -
  let ?u = "pow2 (exponent x - 52)"
  have u: "0 < ?u" by (rule pow2_pos)
  have "to_double x = of_int (round_half_even (x / ?u)) * ?u"
    using assms by (rule significand(1))
  also have "\<dots> \<le> (x / ?u + 1 / 2) * ?u"
    using round_half_even_error(1) [of "x / ?u"] u by simp
  also have "\<dots> = x + ?u / 2"
    using u by (simp add: field_simps)
  also have "?u / 2 = pow2 (exponent x) / 2 ^ 53"
    unfolding pow2_52 [of "exponent x"] by simp
  also have "\<dots> \<le> x / 2 ^ 53"
    using exponent_spec [OF assms] by (simp add: divide_right_mono)
  finally show ?thesis
    by (simp add: field_simps)
qed

lemma to_double_nonneg: "0 \<le> x \<Longrightarrow> 0 \<le> to_double x"
  using to_double_mono [of 0 x] by (simp add: to_double_0)

lemma doubles:
  "to_double 1 = 1" "to_double 30 = 30" "to_double 50 = 50" "to_double 85 = 85"
  "to_double 98 = 98" "to_double (111 / 2) = 111 / 2" "to_double (171 / 2) = 171 / 2"
  by code_simp+

section \<open>Properties of transcribeLargeAudio\<close>

lemma chunk_name_startsWith: "startsWith (chunk_name ext i) ''chunk''"
  by (simp add: chunk_name_def startsWith_def)

lemma input_not_chunk: "\<not> startsWith ''input.mp3'' ''chunk''"
  by code_simp

lemma filter_chunk_names:
  "filter (\<lambda>f. startsWith f ''chunk'') (map (chunk_name ext) ns) = map (chunk_name ext) ns"
  by (induction ns) (simp_all add: chunk_name_startsWith)

text \<open>The order in which \<open>readdir\<close> lists the directory does not matter: the names
  are sorted afterwards.\<close>

lemma sort_insort_key: "sort (insort_key f y zs) = insort y (sort zs)"
  by (induction zs) (simp_all add: insort_left_comm)

lemma sort_sort_key: "sort (sort_key f ys) = sort ys"
  by (induction ys) (simp_all add: sort_insort_key)

lemma listed_chunks:
  "sort (filter P (listing env ext k)) =
     sort (filter P (other_files env @ map (chunk_name ext) [0..<Suc k]))"
  by (simp add: listing_def filter_sort sort_sort_key del: upt.simps)

lemma segment_paths_audio_of:
  "180 < d \<Longrightarrow> 0 < n \<Longrightarrow>
     segment_paths (audio_of d n) inputPath ''.mp3'' dir =
       Inr (map (path_join dir) (sort (map (chunk_name ''.mp3'') [0..<n])))"
  by (simp add: segment_paths_def listed_chunks audio_of_def CHUNK_SIZE_def filter_chunk_names
      input_not_chunk del: upt.simps)

lemma inj_path_join: "inj (path_join dir)"
  by (rule injI) (simp add: path_join_def)

lemma chunk1000_before_chunk101: "chunk_name ''.mp3'' 1000 < chunk_name ''.mp3'' 101"
  by code_simp

text \<open>
  C1, at an audio file of 180180 seconds, for which the segment run writes the 1001
  files \<open>chunk000.mp3\<close> to \<open>chunk1000.mp3\<close>. The \<open>sort()\<close> of the listed names compares
  them as strings, so \<open>chunk1000.mp3\<close> comes before \<open>chunk101.mp3\<close>: the sequence built is
  not the chronological one, and the last segment of the audio is transcribed before the
  segment numbered 101.
\<close>

theorem segment_order_not_chronological:
  "\<exists>segs.
     segment_paths (audio_of 180180 1001) ''/tmp/amy-podcast-1/input.mp3'' ''.mp3''
       ''/tmp/amy-podcast-1'' = Inr segs \<and>
     segs \<noteq> map (path_join ''/tmp/amy-podcast-1'') (map (chunk_name ''.mp3'') [0..<1001]) \<and>
     (\<exists>i j. i < j \<and> j < length segs \<and>
        segs ! i = path_join ''/tmp/amy-podcast-1'' (chunk_name ''.mp3'' 1000) \<and>
        segs ! j = path_join ''/tmp/amy-podcast-1'' (chunk_name ''.mp3'' 101))"
proof -
  define names where "names = map (chunk_name ''.mp3'') [0..<1001]"
  define ys where "ys = sort names"
  let ?dir = "''/tmp/amy-podcast-1''"
  have segs: "segment_paths (audio_of 180180 1001) ''/tmp/amy-podcast-1/input.mp3'' ''.mp3''
      ?dir = Inr (map (path_join ?dir) ys)"
    unfolding ys_def names_def by (rule segment_paths_audio_of) simp_all
  have sorted: "sorted ys"
    by (simp add: ys_def)
  have "chunk_name ''.mp3'' 1000 \<in> set ys" "chunk_name ''.mp3'' 101 \<in> set ys"
    by (simp_all add: ys_def names_def del: upt.simps)
  then obtain i j where i: "i < length ys" "ys ! i = chunk_name ''.mp3'' 1000"
    and j: "j < length ys" "ys ! j = chunk_name ''.mp3'' 101"
    by (auto simp: in_set_conv_nth)
  have "i < j"
  proof (rule ccontr)
    assume "\<not> i < j"
    then have "j \<le> i" by simp
    with sorted i(1) have "ys ! j \<le> ys ! i"
      by (simp add: sorted_iff_nth_mono)
    with i j chunk1000_before_chunk101 show False by simp
  qed
  have neq: "map (path_join ?dir) ys \<noteq> map (path_join ?dir) names"
  proof
    assume "map (path_join ?dir) ys = map (path_join ?dir) names"
    then have "ys = names"
      by (simp add: inj_map_eq_map [OF inj_path_join])
    with sorted have "sorted names" by simp
    then have "names ! 101 \<le> names ! 1000"
      by (rule sorted_nth_mono) (simp_all add: names_def)
    moreover have "names ! 101 = chunk_name ''.mp3'' 101"
      "names ! 1000 = chunk_name ''.mp3'' 1000"
      by (simp_all add: names_def del: upt.simps)
    ultimately show False
      using chunk1000_before_chunk101 by simp
  qed
  have "map (path_join ?dir) ys ! i = path_join ?dir (chunk_name ''.mp3'' 1000)"
    "map (path_join ?dir) ys ! j = path_join ?dir (chunk_name ''.mp3'' 101)"
    using i j by simp_all
  with segs neq \<open>i < j\<close> j(1) show ?thesis
    unfolding names_def [symmetric]
    by (intro exI [of _ "map (path_join ?dir) ys"] conjI exI [of _ i] exI [of _ j]) simp_all
qed

text \<open>
  C6, at an audio file of 42 minutes (14 segments of 180 seconds), every transcription
  succeeding. The values passed to \<open>onProgress\<close> are listed in call order; the start of
  segment 11 reports 73 and its completion 72 (likewise 77 then 76, and 81 then 80), so
  the sequence is not non-decreasing. The start value spreads the segments over 55
  points, the completion value over 50.
\<close>

theorem transcribing_progress_decreases:
  "snd (transcribeLargeAudio (audio_of 2520 14) ''/tmp/amy-podcast-1/input.mp3'' ''.mp3''
          ''/tmp/amy-podcast-1'') =
     [30, 33, 33, 37, 37, 40, 41, 44, 45, 47, 49, 51, 53, 55, 57, 58, 61, 62, 65, 65, 69, 69,
      73, 72, 77, 76, 81, 80] \<and>
   \<not> sorted (snd (transcribeLargeAudio (audio_of 2520 14) ''/tmp/amy-podcast-1/input.mp3''
                    ''.mp3'' ''/tmp/amy-podcast-1''))"
  by code_simp

text \<open>
  C7, at an audio file of one minute (a single segment). The completion of the only
  segment is reported as 80, that is 30 plus the whole of a 50-point span, not 30 plus
  the whole of the 55-point span (85); the start value uses the 55-point span.
\<close>

theorem single_segment_completion_is_80:
  "transcribeLargeAudio (audio_of 60 0) ''/tmp/amy-podcast-1/input.mp3'' ''.mp3''
     ''/tmp/amy-podcast-1'' = (Inr (ascii ''hi'' @ [0x000A]), [30, 80]) \<and>
   endP 1 0 = 80 \<and> endP 1 0 \<noteq> 30 + 55 \<and> startP 2 1 = 30 + \<lfloor>55 / 2 :: rat\<rfloor>"
  by code_simp

text \<open>
  The parts of the segmentation that do not depend on the number of chunk files: a
  duration of at most 180 seconds gives the input file alone, and a rejection of the
  probe, of the segment run or of \<open>readdir\<close> is rethrown.
\<close>

lemma segment_paths_short:
  "probe_result env = Inr d \<Longrightarrow> (case d of None \<Rightarrow> 0 | Some x \<Rightarrow> x) \<le> 180 \<Longrightarrow>
     segment_paths env inputPath ext dir = Inr [inputPath]"
  by (simp add: segment_paths_def CHUNK_SIZE_def)

lemma segment_failures_fatal:
  "probe_result env = Inl err \<Longrightarrow>
     transcribeLargeAudio env inputPath ext dir = (Inl (IoFailure err), [])"
  "probe_result env = Inr (Some d) \<Longrightarrow> 180 < d \<Longrightarrow> split_result env = Inl err \<Longrightarrow>
     transcribeLargeAudio env inputPath ext dir = (Inl (IoFailure err), [])"
  "probe_result env = Inr (Some d) \<Longrightarrow> 180 < d \<Longrightarrow> split_result env = Inr k \<Longrightarrow>
     readdir_failure env = Some err \<Longrightarrow>
     transcribeLargeAudio env inputPath ext dir = (Inl (IoFailure err), [])"
  by (simp_all add: transcribeLargeAudio_def segment_paths_def CHUNK_SIZE_def)



text \<open>
  The three-digit names are ordered as their numbers, so up to 1000 chunk files the
  string order of \<open>sort()\<close> is the chronological one.
\<close>

lemma digit_char_less: "a < 10 \<Longrightarrow> b < 10 \<Longrightarrow> digit_char a < digit_char b \<longleftrightarrow> a < b"
  by (simp add: digit_char_def less_char_def)

lemma digit_char_eq: "a < 10 \<Longrightarrow> b < 10 \<Longrightarrow> digit_char a = digit_char b \<longleftrightarrow> a = b"
proof -
  assume a: "a < 10" and b: "b < 10"
  have "digit_char a = digit_char b \<Longrightarrow> a = b"
  proof -
    assume "digit_char a = digit_char b"
    then have "(of_char (digit_char a) :: nat) = of_char (digit_char b)" by simp
    with a b show "a = b" by (simp add: digit_char_def)
  qed
  then show ?thesis by auto
qed

lemma digit_char_0: "digit_char 0 = CHR ''0''"
  by code_simp

lemma decimal_small: "n < 10 \<Longrightarrow> decimal n = [digit_char n]"
  by (subst decimal.simps) simp

lemma decimal_two: "10 \<le> n \<Longrightarrow> n < 100 \<Longrightarrow> decimal n = [digit_char (n div 10), digit_char (n mod 10)]"
  by (subst decimal.simps) (simp add: decimal_small)

lemma decimal_three:
  "100 \<le> n \<Longrightarrow> n < 1000 \<Longrightarrow>
     decimal n = [digit_char (n div 100), digit_char (n div 10 mod 10), digit_char (n mod 10)]"
proof -
  assume a: "100 \<le> n" "n < 1000"
  then have "10 \<le> n div 10" "n div 10 < 100" by auto
  then have "decimal (n div 10) = [digit_char (n div 10 div 10), digit_char (n div 10 mod 10)]"
    by (rule decimal_two)
  moreover have "n div 10 div 10 = n div 100" by (simp add: div_mult2_eq)
  ultimately show ?thesis using a by (subst decimal.simps) simp
qed

lemma pad3_digits:
  assumes "n < 1000"
  shows "pad3 n = [digit_char (n div 100), digit_char (n div 10 mod 10), digit_char (n mod 10)]"
proof -
  consider "n < 10" | "10 \<le> n" "n < 100" | "100 \<le> n" by linarith
  then show ?thesis
  proof cases
    case 1
    then show ?thesis
      by (simp add: pad3_def decimal_small digit_char_0 numeral_2_eq_2)
  next
    case 2
    then have "n div 100 = 0" by simp
    with 2 show ?thesis
      by (simp add: pad3_def decimal_two digit_char_0)
  next
    case 3
    with assms show ?thesis
      by (simp add: pad3_def decimal_three)
  qed
qed

lemma decomp: "(i::nat) = 100 * (i div 100) + 10 * (i div 10 mod 10) + i mod 10"
proof -
  have "i mod 100 = 10 * (i div 10 mod 10) + i mod 10"
    using mod_mult2_eq [of i 10 10] by simp
  moreover have "i = 100 * (i div 100) + i mod 100"
    by simp
  ultimately show ?thesis
    by linarith
qed

lemma lex_order:
  fixes i j :: nat
  assumes "i < j"
  shows "i div 100 < j div 100 \<or> i div 100 = j div 100 \<and>
     (i div 10 mod 10 < j div 10 mod 10 \<or> i div 10 mod 10 = j div 10 mod 10 \<and> i mod 10 < j mod 10)"
proof -
  have i: "i = 100 * (i div 100) + 10 * (i div 10 mod 10) + i mod 10" by (rule decomp)
  have j: "j = 100 * (j div 100) + 10 * (j div 10 mod 10) + j mod 10" by (rule decomp)
  have b: "i div 10 mod 10 < 10" "j div 10 mod 10 < 10" "i mod 10 < 10" "j mod 10 < 10"
    by simp_all
  define hi ti ui hj tj uj where "hi = i div 100" and "ti = i div 10 mod 10" and "ui = i mod 10"
    and "hj = j div 100" and "tj = j div 10 mod 10" and "uj = j mod 10"
  have "100 * hi + 10 * ti + ui < 100 * hj + 10 * tj + uj" "ti < 10" "tj < 10" "ui < 10" "uj < 10"
    using assms i j b unfolding hi_def ti_def ui_def hj_def tj_def uj_def by simp_all
  then have "hi < hj \<or> hi = hj \<and> (ti < tj \<or> ti = tj \<and> ui < uj)"
    by linarith
  then show ?thesis
    unfolding hi_def ti_def ui_def hj_def tj_def uj_def .
qed

lemma three_digits_less:
  assumes "a < 10" "b < 10" "c < 10" "a' < 10" "b' < 10" "c' < 10"
    and "a < a' \<or> a = a' \<and> (b < b' \<or> b = b' \<and> c < c')"
  shows "[digit_char a, digit_char b, digit_char c] @ ext < [digit_char a', digit_char b', digit_char c'] @ ext"
  using assms by (auto simp: digit_char_less digit_char_eq)

lemma chunk_name_mono:
  assumes "i < j" "j < 1000"
  shows "chunk_name ext i < chunk_name ext j"
proof -
  have i: "i < 1000" using assms by simp
  have "pad3 i @ ext < pad3 j @ ext"
    unfolding pad3_digits [OF i] pad3_digits [OF assms(2)]
    using i assms(2) lex_order [OF assms(1)]
    by (intro three_digits_less) simp_all
  then show ?thesis
    by (simp add: chunk_name_def)
qed

lemma chunk_names_sorted: "n \<le> 1000 \<Longrightarrow> sorted (map (chunk_name ext) [0..<n])"
proof -
  assume n: "n \<le> 1000"
  have "chunk_name ext i \<le> chunk_name ext j" if "i \<le> j" "j < n" for i j
  proof (cases "i = j")
    case True
    then show ?thesis by simp
  next
    case False
    with that n have "i < j" "j < 1000" by simp_all
    then show ?thesis by (intro less_imp_le chunk_name_mono)
  qed
  then show ?thesis
    by (simp add: sorted_iff_nth_mono)
qed

lemma chunk_names_distinct: "n \<le> 1000 \<Longrightarrow> distinct (map (chunk_name ext) [0..<n])"
proof -
  assume n: "n \<le> 1000"
  have "inj_on (chunk_name ext) {0..<n}"
  proof (rule inj_onI)
    fix i j assume ij: "i \<in> {0..<n}" "j \<in> {0..<n}" "chunk_name ext i = chunk_name ext j"
    show "i = j"
    proof (rule ccontr)
      assume "i \<noteq> j"
      then consider "i < j" | "j < i" by linarith
      then show False
      proof cases
        case 1
        with ij n have "chunk_name ext i < chunk_name ext j" by (intro chunk_name_mono) simp_all
        with ij(3) show False by simp
      next
        case 2
        with ij n have "chunk_name ext j < chunk_name ext i" by (intro chunk_name_mono) simp_all
        with ij(3) show False by simp
      qed
    qed
  qed
  then show ?thesis
    by (simp add: distinct_map)
qed

text \<open>
  Up to 1000 chunk files the sequence built is the chronological one, in whatever order
  \<open>readdir\<close> lists the directory, provided no other name in it starts with \<open>chunk\<close>.
\<close>

lemma segment_paths_chronological:
  assumes "probe_result env = Inr (Some d)" "180 < d" "split_result env = Inr k"
    and "readdir_failure env = None"
    and "\<forall>f \<in> set (other_files env). \<not> startsWith f ''chunk''"
    and "k < 1000"
  shows "segment_paths env inputPath ext dir =
           Inr (map (path_join dir) (map (chunk_name ext) [0..<Suc k]))"
proof -
  have other: "filter (\<lambda>f. startsWith f ''chunk'') (other_files env) = []"
    using assms(5) by (simp add: filter_empty_conv)
  have "sorted (map (chunk_name ext) [0..<Suc k])"
    using assms(6) by (intro chunk_names_sorted) simp
  then have "sort (map (chunk_name ext) [0..<Suc k]) = map (chunk_name ext) [0..<Suc k]"
    by (rule sort_key_id_if_sorted [of "\<lambda>x. x", simplified])
  then have "sort (filter (\<lambda>f. startsWith f ''chunk'') (listing env ext k)) =
      map (chunk_name ext) [0..<Suc k]"
    unfolding listed_chunks by (simp add: other filter_chunk_names del: upt.simps)
  then show ?thesis
    using assms(1-4) by (simp add: segment_paths_def CHUNK_SIZE_def del: upt.simps)
qed

text \<open>
  Every value passed to \<open>onProgress\<close> lies between 30 and 85 (a completion value never
  exceeds 80), whatever the number of segments.
\<close>

lemma startP_range:
  assumes "i < n"
  shows "30 \<le> startP n i \<and> startP n i \<le> 85"
proof -
  let ?q = "js_div 55 (of_nat n)"
  let ?p = "js_mul (of_nat i) ?q"
  have n: "0 < (of_nat n :: rat)"
    using assms by simp
  then have d: "0 < (55 / of_nat n :: rat)"
    by simp
  have q0: "0 \<le> ?q"
    unfolding js_div_def using d by (intro to_double_nonneg) simp
  have "?q \<le> 55 / of_nat n * (1 + 1 / 2 ^ 53)"
    unfolding js_div_def using d by (rule to_double_upper)
  then have "of_nat i * ?q \<le> of_nat i * (55 / of_nat n * (1 + 1 / 2 ^ 53))"
    by (intro mult_left_mono) simp_all
  also have "\<dots> = (of_nat i / of_nat n) * (55 * (1 + 1 / 2 ^ 53))"
    by simp
  also have "\<dots> \<le> 1 * (55 * (1 + 1 / 2 ^ 53))"
    using assms n by (intro mult_right_mono) simp_all
  also have "\<dots> \<le> 111 / 2"
    by simp
  finally have up: "of_nat i * ?q \<le> 111 / 2" .
  have low: "0 \<le> of_nat i * ?q"
    using q0 by simp
  have p: "0 \<le> ?p" "?p \<le> 111 / 2"
    unfolding js_mul_def
    using to_double_nonneg [OF low] to_double_mono [OF low up] by (simp_all add: doubles)
  have "to_double 30 \<le> js_add 30 ?p" "js_add 30 ?p \<le> to_double (171 / 2)"
    unfolding js_add_def using p by (intro to_double_mono; simp)+
  then have "30 \<le> js_add 30 ?p" "js_add 30 ?p \<le> 171 / 2"
    by (simp_all add: doubles)
  then have "30 \<le> \<lfloor>js_add 30 ?p\<rfloor>" "\<lfloor>js_add 30 ?p\<rfloor> < 86"
    by (simp_all add: le_floor_iff floor_less_iff)
  then show ?thesis
    by (simp add: startP_def)
qed

lemma endP_range:
  assumes "i < n"
  shows "30 \<le> endP n i \<and> endP n i \<le> 80"
proof -
  let ?a = "js_div (of_nat (i + 1)) (of_nat n)"
  have n: "0 < (of_nat n :: rat)"
    using assms by simp
  have "(of_nat (i + 1) :: rat) \<le> of_nat n"
    using assms by (simp only: of_nat_le_iff)
  then have r: "0 \<le> (of_nat (i + 1) :: rat) / of_nat n" "(of_nat (i + 1) :: rat) / of_nat n \<le> 1"
    using n by simp_all
  have a: "0 \<le> ?a" "?a \<le> 1"
    unfolding js_div_def
    using to_double_nonneg [OF r(1)] to_double_mono [OF r] by (simp_all add: doubles)
  then have m: "0 \<le> ?a * 50" "?a * 50 \<le> 50"
    by simp_all
  have "0 \<le> js_mul ?a 50" "js_mul ?a 50 \<le> 50"
    unfolding js_mul_def
    using to_double_nonneg [OF m(1)] to_double_mono [OF m] by (simp_all add: doubles)
  then have "0 \<le> \<lfloor>js_mul ?a 50\<rfloor>" "\<lfloor>js_mul ?a 50\<rfloor> \<le> 50"
    by (simp_all add: floor_le_iff)
  then show ?thesis
    by (simp add: endP_def)
qed

text \<open>
  The rounding of the doubles shows in the values reported: with 50 segments the quotient
  \<open>29 / 50\<close> is rounded down, its product with 50 is below 29, and the completion of
  segment 28 is reported as 58, not 59.
\<close>

lemma endP_rounds_down: "endP 50 28 = 58"
  by code_simp

text \<open>The completion of the last segment is reported as 80.\<close>

lemma endP_last: "0 < n \<Longrightarrow> endP n (n - 1) = 80"
  by (simp add: endP_def js_div_def js_mul_def doubles)

lemma process_chunks_range:
  "process_chunks f n i cs full rep = (r, out) \<Longrightarrow> i + length cs \<le> n \<Longrightarrow>
     \<exists>new. out = rep @ new \<and> (\<forall>p \<in> set new. 30 \<le> p \<and> p \<le> 85)"
proof (induction cs arbitrary: i full rep)
  case Nil
  then show ?case by simp
next
  case (Cons c cs)
  from Cons.prems(2) have i: "i < n" by simp
  show ?case
  proof (cases "outcome (transcribeSingleFile (f c) 3)")
    case (Inl e)
    with Cons.prems(1) have "out = rep @ [startP n i]" by simp
    with startP_range [OF i] show ?thesis by simp
  next
    case (Inr heard)
    with Cons.prems(1) have
      "process_chunks f n (i + 1) cs (full @ heard @ [0x000A])
         (rep @ [startP n i, endP n i]) = (r, out)"
      by simp
    from Cons.IH [OF this] Cons.prems(2) obtain new where
      new: "out = (rep @ [startP n i, endP n i]) @ new" "\<forall>p \<in> set new. 30 \<le> p \<and> p \<le> 85"
      by auto
    have "\<forall>p \<in> set ([startP n i, endP n i] @ new). 30 \<le> p \<and> p \<le> 85"
      using new(2) startP_range [OF i] endP_range [OF i] by auto
    with new(1) show ?thesis
      by (intro exI [of _ "[startP n i, endP n i] @ new"]) simp
  qed
qed

lemma transcribeLargeAudio_range:
  "p \<in> set (snd (transcribeLargeAudio env inputPath ext dir)) \<Longrightarrow> 30 \<le> p \<and> p \<le> 85"
proof -
  assume p: "p \<in> set (snd (transcribeLargeAudio env inputPath ext dir))"
  show ?thesis
  proof (cases "segment_paths env inputPath ext dir")
    case (Inl e)
    with p show ?thesis by (simp add: transcribeLargeAudio_def)
  next
    case (Inr chunks)
    obtain r out where run: "process_chunks (stt env) (length chunks) 0 chunks [] [] = (r, out)"
      by (cases "process_chunks (stt env) (length chunks) 0 chunks [] []") auto
    from process_chunks_range [OF run] obtain new where
      "out = new" "\<forall>p \<in> set new. 30 \<le> p \<and> p \<le> 85"
      by auto
    with p Inr run show ?thesis
      by (simp add: transcribeLargeAudio_def)
  qed
qed

text \<open>A heartbeat never lowers the progress, and keeps it a double between 0 and 98.\<close>

lemma heartbeat_progress_step:
  assumes "0 \<le> r" "0 \<le> p" "p \<le> 98" "to_double p = p"
  shows "p \<le> heartbeat_progress p r" "heartbeat_progress p r \<le> 98"
    "to_double (heartbeat_progress p r) = heartbeat_progress p r"
proof -
  let ?d = "js_mul r (to_double (2 / 10))"
  have "0 \<le> to_double (2 / 10)"
    by (intro to_double_nonneg) simp
  with assms(1) have "0 \<le> r * to_double (2 / 10)"
    by simp
  then have d: "0 \<le> ?d"
    unfolding js_mul_def by (rule to_double_nonneg)
  with assms(2) have s: "0 \<le> p" "p \<le> p + ?d" "0 \<le> p + ?d"
    by simp_all
  from to_double_mono [OF s(1,2)] have "p \<le> js_add p ?d"
    unfolding js_add_def assms(4) .
  with assms(3) show "p \<le> heartbeat_progress p r"
    by (simp add: heartbeat_progress_def)
  show "heartbeat_progress p r \<le> 98"
    by (simp add: heartbeat_progress_def)
  show "to_double (heartbeat_progress p r) = heartbeat_progress p r"
    unfolding heartbeat_progress_def js_add_def min_def
    using to_double_idem [OF s(3)] by (simp add: doubles)
qed

text \<open>
  The values the heartbeat callback sends do not decrease, as long as \<open>Math.random()\<close>
  returns values that are not negative.
\<close>

lemma relay_sorted:
  "(\<forall>k. 0 \<le> rnd k) \<Longrightarrow> 0 \<le> progress \<Longrightarrow> progress \<le> 98 \<Longrightarrow>
     to_double progress = progress \<Longrightarrow>
     sorted (\<lfloor>progress\<rfloor> # progress_values (relay rnd es progress k))"
proof (induction es arbitrary: progress k)
  case Nil
  then show ?case by simp
next
  case (Cons e es)
  show ?case
  proof (cases e)
    case (Notice n)
    with Cons show ?thesis by simp
  next
    case Heartbeat
    let ?next = "heartbeat_progress progress (rnd k)"
    from Cons.prems(1) have r: "0 \<le> rnd k" by simp
    note h = heartbeat_progress_step [OF r Cons.prems(2-4)]
    from h(1) have step: "\<lfloor>progress\<rfloor> \<le> \<lfloor>?next\<rfloor>"
      by (rule floor_mono)
    from h(1) Cons.prems(2) have "0 \<le> ?next" by simp
    then have "sorted (\<lfloor>?next\<rfloor> # progress_values (relay rnd es ?next (k + 1)))"
      using h(2,3) by (intro Cons.IH [OF Cons.prems(1)])
    with step show ?thesis
      using Heartbeat by auto
  qed
qed

lemma relay_sorted_from_85:
  "(\<forall>k. 0 \<le> rnd k) \<Longrightarrow> sorted (85 # progress_values (relay rnd es 85 k))"
  using relay_sorted [of rnd 85 es k] by (simp add: doubles)

text \<open>
  When \<open>Math.random()\<close> returns one half every time, each heartbeat adds the double
  nearest to one tenth and every sum is rounded: after ten heartbeats the progress is
  still below 86, and the tenth heartbeat sends 85.
\<close>

lemma ten_heartbeats:
  "progress_values (relay (\<lambda>k. 1 / 2) (replicate 12 Heartbeat) 85 0) =
     [85, 85, 85, 85, 85, 85, 85, 85, 85, 85, 86, 86]"
  by code_simp

section \<open>Properties of splitTranscriptIntoChunks\<close>

lemma concat_split_sentences: "concat (split_sentences s) = s"
proof (induction s rule: split_sentences.induct)
  case (1 s)
  let ?r = "dropWhile (\<lambda>c. \<not> isDelimiter c) s"
  let ?t = "takeWhile (\<lambda>c. \<not> isDelimiter c) s"
  have id: "?t @ ?r = s"
    by (rule takeWhile_dropWhile_id)
  show ?case
  proof (cases "?r = []")
    case True
    have "split_sentences s = [?t]"
      by (subst split_sentences.simps) (simp only: True, simp)
    then have "concat (split_sentences s) = ?t"
      by simp
    also have "\<dots> = s"
      using id True by simp
    finally show ?thesis .
  next
    case False
    have "split_sentences s = ?t # takeWhile isDelimiter ?r # split_sentences (dropWhile isDelimiter ?r)"
      by (subst split_sentences.simps) (simp only: False if_False)
    then have "concat (split_sentences s) =
        ?t @ takeWhile isDelimiter ?r @ concat (split_sentences (dropWhile isDelimiter ?r))"
      by simp
    also have "\<dots> = ?t @ takeWhile isDelimiter ?r @ dropWhile isDelimiter ?r"
      by (simp only: "1.IH" [OF False])
    also have "\<dots> = ?t @ ?r"
      by (simp only: takeWhile_dropWhile_id)
    finally show ?thesis
      using id by simp
  qed
qed

lemma split_sentences_plain:
  "\<forall>c \<in> set s. \<not> isDelimiter c \<Longrightarrow> split_sentences s = [s]"
  by (subst split_sentences.simps) (simp add: dropWhile_eq_Nil_conv)

lemma split_sentences_two:
  assumes "\<forall>c \<in> set u. \<not> isDelimiter c" "isDelimiter d" "\<forall>c \<in> set v. \<not> isDelimiter c"
  shows "split_sentences (u @ d # v) = [u, [d], v]"
proof -
  have t: "takeWhile (\<lambda>c. \<not> isDelimiter c) (u @ d # v) = u"
    using assms by (simp add: takeWhile_append2)
  have dr: "dropWhile (\<lambda>c. \<not> isDelimiter c) (u @ d # v) = d # v"
    using assms by (simp add: dropWhile_append2)
  have tv: "takeWhile isDelimiter v = []" using assms(3) by (cases v) auto
  have dv: "dropWhile isDelimiter v = v" using assms(3) by (cases v) auto
  show ?thesis
    using assms by (subst split_sentences.simps) (simp add: t dr tv dv split_sentences_plain)
qed

lemma length_trim_le: "length (trim s) \<le> length s"
proof -
  have "length (trim s) \<le> length (dropWhile isWhiteSpace s)"
    unfolding trim_def using length_dropWhile_le [of isWhiteSpace "rev (dropWhile isWhiteSpace s)"]
    by simp
  also have "\<dots> \<le> length s" by (rule length_dropWhile_le)
  finally show ?thesis .
qed

lemma filter_dropWhile_neg: "filter (\<lambda>c. \<not> P c) (dropWhile P xs) = filter (\<lambda>c. \<not> P c) xs"
  by (induction xs) auto

lemma filter_trim: "filter (\<lambda>c. \<not> isWhiteSpace c) (trim s) = filter (\<lambda>c. \<not> isWhiteSpace c) s"
proof -
  have "filter (\<lambda>c. \<not> isWhiteSpace c) (trim s) =
      rev (filter (\<lambda>c. \<not> isWhiteSpace c) (dropWhile isWhiteSpace (rev (dropWhile isWhiteSpace s))))"
    unfolding trim_def by (rule rev_filter [symmetric])
  also have "\<dots> = rev (filter (\<lambda>c. \<not> isWhiteSpace c) (rev (dropWhile isWhiteSpace s)))"
    by (simp only: filter_dropWhile_neg)
  also have "\<dots> = filter (\<lambda>c. \<not> isWhiteSpace c) (dropWhile isWhiteSpace s)"
    by (simp only: rev_filter [symmetric] rev_rev_ident)
  also have "\<dots> = filter (\<lambda>c. \<not> isWhiteSpace c) s"
    by (rule filter_dropWhile_neg)
  finally show ?thesis .
qed

lemma trim_fixed:
  assumes "s \<noteq> []" "\<not> isWhiteSpace (hd s)" "\<not> isWhiteSpace (last s)"
  shows "trim s = s"
proof -
  from assms have a: "dropWhile isWhiteSpace s = s" by (cases s) auto
  from assms have "rev s \<noteq> []" "\<not> isWhiteSpace (hd (rev s))" by (simp_all add: hd_rev)
  then have "dropWhile isWhiteSpace (rev s) = rev s" by (cases "rev s") auto
  with a show ?thesis by (simp add: trim_def)
qed





lemma trim_append_space:
  assumes "s \<noteq> []" "\<not> isWhiteSpace (hd s)" "\<not> isWhiteSpace (last s)" "\<forall>c \<in> set w. isWhiteSpace c"
  shows "trim (s @ w) = s"
proof -
  from assms have a: "dropWhile isWhiteSpace (s @ w) = s @ w" by (cases s) auto
  have "dropWhile isWhiteSpace (rev w @ rev s) = dropWhile isWhiteSpace (rev s)"
    by (rule dropWhile_append2) (use assms(4) in simp)
  also have "\<dots> = rev s"
    using assms by (cases "rev s") (auto simp: hd_rev)
  finally show ?thesis using a by (simp add: trim_def)
qed

lemma chunk_loop_groups:
  "chunk_loop C ss chunks cur = (chunks', cur') \<Longrightarrow>
     \<exists>gs. chunks' = chunks @ map trim gs \<and> concat gs @ cur' = cur @ concat ss"
proof (induction ss arbitrary: chunks cur)
  case Nil
  then show ?case by (intro exI [of _ "[]"]) simp
next
  case (Cons s ss)
  show ?case
  proof (cases "length cur + length s > C \<and> length cur > 0")
    case True
    with Cons.prems have "chunk_loop C ss (chunks @ [trim cur]) s = (chunks', cur')"
      by simp
    from Cons.IH [OF this] obtain gs where
      gs: "chunks' = (chunks @ [trim cur]) @ map trim gs" "concat gs @ cur' = s @ concat ss"
      by blast
    then show ?thesis
      by (intro exI [of _ "cur # gs"]) simp
  next
    case False
    with Cons.prems have "chunk_loop C ss chunks (cur @ s) = (chunks', cur')"
      by auto
    from Cons.IH [OF this] obtain gs where
      "chunks' = chunks @ map trim gs" "concat gs @ cur' = (cur @ s) @ concat ss"
      by blast
    then show ?thesis
      by (intro exI [of _ gs]) simp
  qed
qed

lemma current_ok_trim: "current_ok C S cur \<Longrightarrow> chunk_ok C S (trim cur)"
  unfolding current_ok_def chunk_ok_def
  using length_trim_le [of cur] by auto

lemma chunk_loop_bound:
  "chunk_loop C ss chunks cur = (chunks', cur') \<Longrightarrow> set ss \<subseteq> S \<Longrightarrow>
     (\<forall>c \<in> set chunks. chunk_ok C S c) \<Longrightarrow> current_ok C S cur \<Longrightarrow>
     (\<forall>c \<in> set chunks'. chunk_ok C S c) \<and> current_ok C S cur'"
proof (induction ss arbitrary: chunks cur)
  case Nil
  then show ?case by simp
next
  case (Cons s ss)
  show ?case
  proof (cases "length cur + length s > C \<and> length cur > 0")
    case True
    with Cons.prems(1) have run: "chunk_loop C ss (chunks @ [trim cur]) s = (chunks', cur')"
      by simp
    have "\<forall>c \<in> set (chunks @ [trim cur]). chunk_ok C S c"
      using Cons.prems(3,4) current_ok_trim by auto
    moreover have "current_ok C S s"
      using Cons.prems(2) by (auto simp: current_ok_def)
    moreover have "set ss \<subseteq> S"
      using Cons.prems(2) by simp
    ultimately show ?thesis
      using Cons.IH [OF run] by blast
  next
    case False
    with Cons.prems(1) have run: "chunk_loop C ss chunks (cur @ s) = (chunks', cur')"
      by auto
    have "current_ok C S (cur @ s)"
    proof (cases "cur = []")
      case True
      then show ?thesis using Cons.prems(2) by (auto simp: current_ok_def)
    next
      case nonempty: False
      with False have "length (cur @ s) \<le> C" by simp
      then show ?thesis by (simp add: current_ok_def)
    qed
    moreover have "set ss \<subseteq> S"
      using Cons.prems(2) by simp
    ultimately show ?thesis
      using Cons.IH [OF run] Cons.prems(3) by blast
  qed
qed

lemma filter_concat_map_trim:
  "filter (\<lambda>c. \<not> isWhiteSpace c) (concat (map trim gs)) =
     filter (\<lambda>c. \<not> isWhiteSpace c) (concat gs)"
  by (induction gs) (simp_all add: filter_trim)

lemma letters_plain [simp]:
  "\<not> isDelimiter 0x0061" "\<not> isDelimiter 0x0062" "\<not> isWhiteSpace 0x0061"
  "\<not> isWhiteSpace 0x0062" "isDelimiter 0x000A" "isWhiteSpace 0x000A"
  "\<not> isDelimiter 0x0020" "isWhiteSpace 0x0020"
  by (simp_all add: isDelimiter_def isWhiteSpace_def)

lemma trim_replicate: "\<not> isWhiteSpace x \<Longrightarrow> trim (replicate n x) = replicate n x"
  by (cases n) (simp add: trim_def, rule trim_fixed, simp_all)

lemma split_two_sentences:
  "splitTranscriptIntoChunks two_sentences 8000 = [replicate 5000 0x0061, replicate 5000 0x0062]"
proof -
  have pieces: "split_sentences two_sentences =
      [replicate 5000 0x0061, [0x000A], replicate 5000 0x0062]"
    unfolding two_sentences_def by (rule split_sentences_two) simp_all
  have t1: "trim (replicate 5000 0x0061 @ [0x000A]) = replicate 5000 0x0061"
    by (rule trim_append_space) simp_all
  have len: "length two_sentences = 10001"
    by (simp add: two_sentences_def)
  show ?thesis
    by (simp add: splitTranscriptIntoChunks_def len pieces t1 trim_replicate)
qed



text \<open>
  C5, against the claim as stated. For two sentences of 5000 letters separated by a line
  feed (10001 code units, above the limit of 8000) the chunks are the two sentences: the
  line feed between them is trimmed away, so the concatenation of the chunks (10000 code
  units) is not the transcript.
\<close>

theorem split_loses_whitespace:
  "splitTranscriptIntoChunks two_sentences 8000 =
     [replicate 5000 0x0061, replicate 5000 0x0062] \<and>
   8000 < length two_sentences \<and>
   concat (splitTranscriptIntoChunks two_sentences 8000) \<noteq> two_sentences"
proof -
  have "length (concat (splitTranscriptIntoChunks two_sentences 8000)) = 10000"
    by (simp add: split_two_sentences)
  moreover have "length two_sentences = 10001"
    by (simp add: two_sentences_def)
  ultimately have "concat (splitTranscriptIntoChunks two_sentences 8000) \<noteq> two_sentences"
    by auto
  moreover have "8000 < length two_sentences"
    by (simp add: two_sentences_def)
  ultimately show ?thesis
    using split_two_sentences by blast
qed

text \<open>
  C5, amended. For a transcript longer than the limit \<open>C\<close>: every chunk is at most \<open>C\<close>
  long, or is the trimmed form of a single piece of the split (a text without separators,
  or a run of separators) that is itself longer than \<open>C\<close>; the chunks are the trimmed
  forms of consecutive parts of the transcript whose concatenation is the transcript, the
  last part being dropped when it is whitespace only; so the chunks concatenated and the
  transcript agree once whitespace is removed from both.
\<close>

theorem splitTranscriptIntoChunks_chunks:
  assumes "C < length t"
  shows "(\<forall>c \<in> set (splitTranscriptIntoChunks t C).
            length c \<le> C \<or> (\<exists>p \<in> set (split_sentences t). C < length p \<and> c = trim p)) \<and>
         (\<exists>gs. gs \<noteq> [] \<and> concat gs = t \<and>
            (splitTranscriptIntoChunks t C = map trim gs \<or>
             trim (last gs) = [] \<and> splitTranscriptIntoChunks t C = map trim (butlast gs))) \<and>
         filter (\<lambda>c. \<not> isWhiteSpace c) (concat (splitTranscriptIntoChunks t C)) =
           filter (\<lambda>c. \<not> isWhiteSpace c) t"
proof -
  obtain chunks cur where run: "chunk_loop C (split_sentences t) [] [] = (chunks, cur)"
    by (cases "chunk_loop C (split_sentences t) [] []") auto
  let ?S = "set (split_sentences t)"
  let ?res = "splitTranscriptIntoChunks t C"
  let ?nw = "\<lambda>c. \<not> isWhiteSpace c"
  have res: "?res = (if trim cur \<noteq> [] then chunks @ [trim cur] else chunks)"
    using assms by (simp add: splitTranscriptIntoChunks_def run)
  from chunk_loop_groups [OF run] obtain gs where
    gs: "chunks = map trim gs" "concat gs @ cur = t"
    by (auto simp: concat_split_sentences)
  have "(\<forall>c \<in> set chunks. chunk_ok C ?S c) \<and> current_ok C ?S cur"
    by (rule chunk_loop_bound [OF run]) (simp_all add: current_ok_def)
  then have ok: "\<forall>c \<in> set ?res. chunk_ok C ?S c"
    using current_ok_trim [of C ?S cur] by (auto simp: res)
  have bound: "\<forall>c \<in> set ?res.
      length c \<le> C \<or> (\<exists>p \<in> ?S. C < length p \<and> c = trim p)"
    using ok by (simp add: chunk_ok_def)
  have groups: "\<exists>gs. gs \<noteq> [] \<and> concat gs = t \<and>
      (?res = map trim gs \<or> trim (last gs) = [] \<and> ?res = map trim (butlast gs))"
    using gs by (intro exI [of _ "gs @ [cur]"]) (simp add: res)
  have content: "filter ?nw (concat ?res) = filter ?nw t"
  proof (cases "trim cur = []")
    case True
    then have "filter ?nw cur = []"
      using filter_trim [of cur] by simp
    moreover have "filter ?nw (concat ?res) = filter ?nw (concat gs)"
      using True by (simp add: res gs(1) filter_concat_map_trim)
    moreover have "filter ?nw t = filter ?nw (concat gs) @ filter ?nw cur"
      using gs(2) [symmetric] by (simp only: filter_append)
    ultimately show ?thesis by simp
  next
    case False
    then have "?res = map trim (gs @ [cur])"
      by (simp add: res gs(1))
    then have "filter ?nw (concat ?res) = filter ?nw (concat (gs @ [cur]))"
      by (simp only: filter_concat_map_trim)
    then show ?thesis
      using gs(2) by simp
  qed
  from bound groups content show ?thesis by blast
qed

text \<open>The amended C5 at the two sentences: two chunks within the limit, the transcript
  without its line feed.\<close>

theorem splitTranscriptIntoChunks_chunks_witness:
  "8000 < length two_sentences \<and>
   set (splitTranscriptIntoChunks two_sentences 8000) =
     {replicate 5000 0x0061, replicate 5000 0x0062} \<and>
   length (replicate 5000 (0x0061 :: code_unit)) \<le> 8000 \<and>
   filter (\<lambda>c. \<not> isWhiteSpace c) (concat (splitTranscriptIntoChunks two_sentences 8000)) =
     filter (\<lambda>c. \<not> isWhiteSpace c) two_sentences"
proof -
  have len: "8000 < length two_sentences"
    by (simp add: two_sentences_def)
  from splitTranscriptIntoChunks_chunks [OF len] show ?thesis
    using len by (simp add: split_two_sentences)
qed







section \<open>Properties of summarizeTranscript\<close>

lemma split_block:
  assumes "C < n" "\<not> isWhiteSpace x" "\<not> isDelimiter x"
  shows "splitTranscriptIntoChunks (replicate n x) C = [replicate n x]"
proof -
  have "split_sentences (replicate n x) = [replicate n x]"
    using assms(3) by (intro split_sentences_plain) simp
  moreover have "replicate n x \<noteq> []"
    using assms(1) by auto
  ultimately show ?thesis
    using assms by (simp add: splitTranscriptIntoChunks_def trim_replicate)
qed

lemma retryTime_rate_limited: "retryTime rate_limited = Some ''7m12s.''"
  by code_simp

lemma rate_limited_fields:
  "isRateLimit rate_limited" "err_status rate_limited = Some 429"
  by (simp_all add: isRateLimit_def rate_limited_def)

text \<open>
  C3, at a transcript of 15001 letters (one chunk) when the primary model answers the
  request for the chunk and is rate-limited at the final request, the fallback model
  being available. The final request goes to the primary model only: no request is made
  to the fallback model, no notice of a switch is sent, and the function throws the
  quota message. On the direct path the same rate limit is answered by one notice and
  one request to the fallback model, whose text is returned.
\<close>

theorem final_call_has_no_fallback:
  "summarizeTranscript (primary_limited_after 1) long_transcript =
     (Inl (QuotaExhausted (Some ''7m12s.'')),
      \<lparr>calls =
         [\<lparr>call_model = PRIMARY, call_content = long_transcript, call_partial = True\<rparr>,
          \<lparr>call_model = PRIMARY,
           call_content = finalPrompt (ascii ''# Notes''), call_partial = False\<rparr>],
       emitted =
         [Notice (LongTranscript 15), Notice (ChunkProgress 1 1), Notice Integrating]\<rparr>) \<and>
   summarizeTranscript (primary_limited_after 0) short_transcript =
     (Inr (ascii ''# Notes''),
      \<lparr>calls =
         [\<lparr>call_model = PRIMARY, call_content = short_transcript, call_partial = False\<rparr>,
          \<lparr>call_model = FALLBACK, call_content = short_transcript, call_partial = False\<rparr>],
       emitted = [Notice (DirectFallback (Some ''7m12s.''))]\<rparr>)"
proof -
  have len: "length long_transcript = 15001"
    by (simp add: long_transcript_def)
  have chunks: "splitTranscriptIntoChunks long_transcript 8000 = [long_transcript]"
    unfolding long_transcript_def by (rule split_block) simp_all
  have nonempty: "ascii ''# Notes'' \<noteq> []"
    by (simp add: ascii_def)
  have chunked: "summarizeTranscript (primary_limited_after 1) long_transcript =
     (Inl (QuotaExhausted (Some ''7m12s.'')),
      \<lparr>calls =
         [\<lparr>call_model = PRIMARY, call_content = long_transcript, call_partial = True\<rparr>,
          \<lparr>call_model = PRIMARY,
           call_content = finalPrompt (ascii ''# Notes''), call_partial = False\<rparr>],
       emitted =
         [Notice (LongTranscript 15), Notice (ChunkProgress 1 1), Notice Integrating]\<rparr>)"
    by (simp add: summarizeTranscript_def summarize_chunked_def CHUNK_THRESHOLD_def len chunks
        primary_limited_after_def callModel_def send_def orElse_def nonempty summarize_error_def
        rate_limited_fields retryTime_rate_limited)
  have short: "length short_transcript = 2"
    by (simp add: short_transcript_def ascii_def)
  have direct: "summarizeTranscript (primary_limited_after 0) short_transcript =
     (Inr (ascii ''# Notes''),
      \<lparr>calls =
         [\<lparr>call_model = PRIMARY, call_content = short_transcript, call_partial = False\<rparr>,
          \<lparr>call_model = FALLBACK, call_content = short_transcript, call_partial = False\<rparr>],
       emitted = [Notice (DirectFallback (Some ''7m12s.''))]\<rparr>)"
    by (simp add: summarizeTranscript_def summarize_direct_def CHUNK_THRESHOLD_def short
        primary_limited_after_def callModel_def send_def orElse_def nonempty
        rate_limited_fields retryTime_rate_limited)
  from chunked direct show ?thesis ..
qed

text \<open>
  The handler of \<open>summarizeTranscript\<close> recognises a rate limit by the status 429
  alone: when both models answer with a rate-limit error that carries only the error
  code, the fallback is tried, and what is thrown is the summarization-failed message.
\<close>

lemma code_only_rate_limit_is_not_quota:
  "summarizeTranscript always_code_limited short_transcript =
     (Inl (SummarizationFailed (Some ''Rate limit reached. Please try again in 7m12s.'')),
      \<lparr>calls =
         [\<lparr>call_model = PRIMARY, call_content = short_transcript, call_partial = False\<rparr>,
          \<lparr>call_model = FALLBACK, call_content = short_transcript, call_partial = False\<rparr>],
       emitted = [Notice (DirectFallback (Some ''7m12s.''))]\<rparr>)"
  by code_simp

section \<open>Properties of POST\<close>

























end
